theory Spec2Isabelle
  imports Main "HOL-Library.Multiset" "HOL-Library.Sublist" "HOL-Library.Word"
begin

section \<open>Data model (main.go, lines 16-39)\<close>

text \<open>
  Go's \<open>int\<close> is a 64-bit signed integer. Fields are modelled as \<open>int\<close>; the
  additions of the program whose operands are not bounded by a slice length
  (\<open>waitTime += ...\<close>, \<open>totalEstimatedTime += ...\<close> and \<open>NextID++\<close>) go through
  \<open>go_add\<close>, which wraps around as the machine does. Loop indices and counters of
  slice elements cannot overflow, a slice being shorter than \<open>2^63\<close>.

  A \<open>time.Time\<close> is modelled as the instant it denotes, an integer count of
  nanoseconds from Go's zero time, so that the zero value is \<open>0\<close> and
  \<open>a.Before(b)\<close> is \<open>a < b\<close>.
\<close>

definition int64 :: "int \<Rightarrow> bool" where
  "int64 x = (- (2 ^ 63) \<le> x \<and> x < 2 ^ 63)"

definition wrap64 :: "int \<Rightarrow> int" where
  "wrap64 x = (x + 2 ^ 63) mod 2 ^ 64 - 2 ^ 63"

definition go_add :: "int \<Rightarrow> int \<Rightarrow> int" where
  "go_add a b = wrap64 (a + b)"

record Task =
  ID :: int
  Description :: string
  Requester :: string
  CreatedAt :: int
  CompletedAt :: int
  EstimatedDuration :: int
  Priority :: int
  Status :: string
  Position :: int

record TaskList =
  Tasks :: "Task list"
  NextID :: int

text \<open>
  The process state: the global \<open>taskList\<close>, the contents of the file at
  \<open>tasksFile\<close>, the error (if any) with which the operating system answers a
  write of that file, and what has been printed on standard output and standard
  error, line by line. A file that parses is modelled by the collection that
  \<open>json.Unmarshal\<close> reads from it, and \<open>saveTasks\<close> stores the collection it is given:
  what is written is what the next invocation reads.
\<close>

datatype file_state = Missing | Unreadable string | Unparsable string | Stored TaskList

record world =
  taskList :: TaskList
  disk :: file_state
  write_error :: "string option"
  stdout :: "string list"
  stderr :: "string list"

text \<open>
  Every \<open>os.Exit(1)\<close> of the program is a left result, carrying the kind of failure
  and the state in which the process stopped; a handler that returns is a right result
  and the process exits with status 0.
\<close>

datatype error = InvalidInput | NotFound | FatalIO

type_synonym result = "error \<times> world + world"

fun exit_code :: "result \<Rightarrow> nat" where
  "exit_code (Inl _) = 1"
| "exit_code (Inr _) = 0"

fun final_world :: "result \<Rightarrow> world" where
  "final_world (Inl (_, w)) = w"
| "final_world (Inr w) = w"

definition pending :: "Task \<Rightarrow> bool" where
  "pending t = (Status t = ''pending'')"

definition ids :: "TaskList \<Rightarrow> int list" where
  "ids l = map ID (Tasks l)"

section \<open>Library functions used by the program\<close>

subsection \<open>\<open>fmt.Sprintf\<close> with \<open>%d\<close>, \<open>%Nd\<close> and \<open>%Ns\<close>\<close>

fun digit_char :: "nat \<Rightarrow> char" where
  "digit_char n = char_of (48 + n)"

fun show_nat :: "nat \<Rightarrow> string" where
  "show_nat n = (if n < 10 then [digit_char n] else show_nat (n div 10) @ [digit_char (n mod 10)])"

declare show_nat.simps [simp del]

definition show_int :: "int \<Rightarrow> string" where
  "show_int i = (if i < 0 then CHR ''-'' # show_nat (nat (- i)) else show_nat (nat i))"

text \<open>
  A width pads with spaces on the left, up to that many characters. \<open>fmt\<close> counts the
  characters of a string with \<open>utf8.RuneCountInString\<close>: a well-formed UTF-8 sequence
  of up to four bytes is one character, and a byte that starts no such sequence is one
  character by itself. \<open>rune_width\<close> is the number of bytes of the character at the head
  of a string.
\<close>

fun rune_width :: "string \<Rightarrow> nat" where
  "rune_width [] = 0"
| "rune_width (c # cs) =
     (let b = (of_char c :: nat);
          size = (if b < 194 then 1 else if b < 224 then 2 else if b < 240 then 3
                  else if b < 245 then 4 else (1::nat));
          lo = (if b = 224 then 160 else if b = 240 then 144 else (128::nat));
          hi = (if b = 237 then 159 else if b = 244 then 143 else (191::nat));
          continuation = (\<lambda>k. 128 \<le> (of_char (cs ! k) :: nat) \<and> (of_char (cs ! k) :: nat) \<le> 191)
      in if size = 1 then 1
         else if length cs + 1 < size then 1
         else if \<not> (lo \<le> (of_char (cs ! 0) :: nat) \<and> (of_char (cs ! 0) :: nat) \<le> hi) then 1
         else if size = 2 then 2
         else if \<not> continuation 1 then 1
         else if size = 3 then 3
         else if \<not> continuation 2 then 1
         else 4)"

fun RuneCountInString :: "string \<Rightarrow> nat" where
  "RuneCountInString [] = 0"
| "RuneCountInString (c # cs) = Suc (RuneCountInString (drop (rune_width (c # cs) - 1) cs))"

definition pad_left :: "nat \<Rightarrow> string \<Rightarrow> string" where
  "pad_left w s = replicate (w - RuneCountInString s) CHR '' '' @ s"

subsection \<open>\<open>strconv.Atoi\<close>\<close>

text \<open>
  \<open>strconv.Atoi\<close> accepts an optional sign followed by at least one decimal digit and
  nothing else, and fails as well when the number does not fit an \<open>int\<close>.
\<close>

definition digit_val :: "char \<Rightarrow> nat option" where
  "digit_val c = (let n = of_char c :: nat in if 48 \<le> n \<and> n \<le> 57 then Some (n - 48) else None)"

fun parse_digits :: "nat \<Rightarrow> string \<Rightarrow> nat option" where
  "parse_digits acc [] = Some acc"
| "parse_digits acc (c # cs) =
     (case digit_val c of None \<Rightarrow> None | Some d \<Rightarrow> parse_digits (10 * acc + d) cs)"

definition Atoi :: "string \<Rightarrow> int option" where
  "Atoi s =
     (let neg = (s \<noteq> [] \<and> hd s = CHR ''-'');
          ds = (if s \<noteq> [] \<and> (hd s = CHR ''-'' \<or> hd s = CHR ''+'') then tl s else s)
      in if ds = [] then None
         else case parse_digits 0 ds of
                None \<Rightarrow> None
              | Some n \<Rightarrow> (let v = (if neg then - int n else int n)
                          in if int64 v then Some v else None))"

subsection \<open>\<open>strings.Join\<close>\<close>

fun Join :: "string list \<Rightarrow> string \<Rightarrow> string" where
  "Join [] sep = []"
| "Join [a] sep = a"
| "Join (a # b # r) sep = a @ sep @ Join (b # r) sep"

subsection \<open>\<open>sort.Slice\<close>\<close>

text \<open>
  \<open>sort.Slice(x, less)\<close> sorts \<open>x\<close> in place by \<open>less\<close>; its documentation states that
  the sort is not guaranteed to be stable. The positioner is given the sorting
  function as a parameter \<open>srt\<close>, and \<open>sort_Slice_spec\<close> is what the library promises of
  it for the comparison the positioner uses: the result is a rearrangement of the input
  in which no later element is less than an earlier one.
\<close>

definition sort_Slice_spec ::
    "('a \<Rightarrow> 'a \<Rightarrow> bool) \<Rightarrow> (('a \<Rightarrow> 'a \<Rightarrow> bool) \<Rightarrow> 'a list \<Rightarrow> 'a list) \<Rightarrow> bool" where
  "sort_Slice_spec lt srt =
     (\<forall>xs. mset (srt lt xs) = mset xs \<and> sorted_wrt (\<lambda>a b. \<not> lt b a) (srt lt xs))"

text \<open>A sorting function that meets it: insertion sort.\<close>

fun insert_by :: "('a \<Rightarrow> 'a \<Rightarrow> bool) \<Rightarrow> 'a \<Rightarrow> 'a list \<Rightarrow> 'a list" where
  "insert_by lt x [] = [x]"
| "insert_by lt x (y # ys) = (if lt y x then y # insert_by lt x ys else x # y # ys)"

fun insertion_sort :: "('a \<Rightarrow> 'a \<Rightarrow> bool) \<Rightarrow> 'a list \<Rightarrow> 'a list" where
  "insertion_sort lt [] = []"
| "insertion_sort lt (x # xs) = insert_by lt x (insertion_sort lt xs)"

text \<open>
  The function that the library runs, as it is since release 1.19 of Go
  (\<open>pdqsort_func\<close> of package \<open>sort\<close>, a pattern-defeating quicksort): slices of at most
  12 elements are sorted by insertion, longer ones are partitioned around a pivot,
  with heap sort as the fallback. The slice is a list, an index a natural number, and
  every function returns the slice it has changed.
\<close>


















































section \<open>Queue positioner (main.go, lines 95-122)\<close>

text \<open>The comparison closure handed to \<open>sort.Slice\<close> (lines 106-111).\<close>

definition less_task :: "Task \<Rightarrow> Task \<Rightarrow> bool" where
  "less_task a b =
     (if Priority a \<noteq> Priority b then Priority a < Priority b
      else CreatedAt a < CreatedAt b)"

text \<open>The inner loop (lines 115-120): the first task with the identifier gets the
  position, and the loop breaks.\<close>

fun set_position :: "int \<Rightarrow> int \<Rightarrow> Task list \<Rightarrow> Task list" where
  "set_position i p [] = []"
| "set_position i p (t # ts) =
     (if ID t = i then t\<lparr>Position := p\<rparr> # ts else t # set_position i p ts)"

text \<open>The outer loop (lines 114-121) over the sorted copies, \<open>i\<close> the loop index.\<close>

fun assign_positions :: "nat \<Rightarrow> Task list \<Rightarrow> Task list \<Rightarrow> Task list" where
  "assign_positions i [] ts = ts"
| "assign_positions i (p # ps) ts =
     assign_positions (Suc i) ps (set_position (ID p) (int i + 1) ts)"

definition updateQueuePositions ::
    "((Task \<Rightarrow> Task \<Rightarrow> bool) \<Rightarrow> Task list \<Rightarrow> Task list) \<Rightarrow> TaskList \<Rightarrow> TaskList" where
  "updateQueuePositions srt l =
     (let pendingTasks = filter pending (Tasks l);
          sorted_tasks = srt less_task pendingTasks
      in l\<lparr>Tasks := assign_positions 0 sorted_tasks (Tasks l)\<rparr>)"

section \<open>Wait-time estimator (main.go, lines 125-135)\<close>

fun wait_loop :: "int \<Rightarrow> int \<Rightarrow> Task list \<Rightarrow> int" where
  "wait_loop position waitTime [] = waitTime"
| "wait_loop position waitTime (t # ts) =
     wait_loop position
       (if Status t = ''pending'' \<and> Position t < position
        then go_add waitTime (EstimatedDuration t) else waitTime) ts"

definition calculateEstimatedWaitTime :: "int \<Rightarrow> TaskList \<Rightarrow> int" where
  "calculateEstimatedWaitTime position l = wait_loop position 0 (Tasks l)"

section \<open>Duration formatter (main.go, lines 138-163)\<close>

text \<open>Go's \<open>/\<close> and \<open>%\<close> truncate towards zero; they are reached only with
  \<open>minutes \<ge> 60\<close>, where they agree with \<open>div\<close> and \<open>mod\<close>.\<close>

definition formatDuration :: "int \<Rightarrow> string" where
  "formatDuration minutes =
     (if minutes < 60 then show_int minutes @ '' minutes''
      else if minutes < 1440 then
        (let hours = minutes div 60; mins = minutes mod 60
         in if mins = 0 then show_int hours @ '' hours''
            else show_int hours @ '' hours, '' @ show_int mins @ '' minutes'')
      else
        (let days = minutes div 1440;
             remainingMinutes = minutes mod 1440;
             hours = remainingMinutes div 60;
             mins = remainingMinutes mod 60;
             result = show_int days @ '' days'';
             result = (if hours > 0 then result @ '', '' @ show_int hours @ '' hours'' else result);
             result = (if mins > 0 then result @ '', '' @ show_int mins @ '' minutes'' else result)
         in result))"

section \<open>Task store (main.go, lines 55-92)\<close>

text \<open>
  \<open>saveTasks\<close> recomputes the positions, serialises the collection and writes the
  file. Serialising a \<open>TaskList\<close> does not fail; the write fails when the operating
  system says so, and the process then exits with the collection repositioned in
  memory and the file as it was.
\<close>

definition saveTasks ::
    "((Task \<Rightarrow> Task \<Rightarrow> bool) \<Rightarrow> Task list \<Rightarrow> Task list) \<Rightarrow> world \<Rightarrow> result" where
  "saveTasks srt w =
     (let w1 = w\<lparr>taskList := updateQueuePositions srt (taskList w)\<rparr>
      in case write_error w1 of
           Some e \<Rightarrow> Inl (FatalIO, w1\<lparr>stderr := stderr w1 @ [''Error writing tasks file: '' @ e]\<rparr>)
         | None \<Rightarrow> Inr (w1\<lparr>disk := Stored (taskList w1)\<rparr>))"

definition loadTasks ::
    "((Task \<Rightarrow> Task \<Rightarrow> bool) \<Rightarrow> Task list \<Rightarrow> Task list) \<Rightarrow> world \<Rightarrow> result" where
  "loadTasks srt w =
     (case disk w of
        Missing \<Rightarrow> saveTasks srt (w\<lparr>taskList := \<lparr>Tasks = [], NextID = 1\<rparr>\<rparr>)
      | Unreadable e \<Rightarrow> Inl (FatalIO, w\<lparr>stderr := stderr w @ [''Error reading tasks file: '' @ e]\<rparr>)
      | Unparsable e \<Rightarrow> Inl (FatalIO, w\<lparr>stderr := stderr w @ [''Error parsing tasks file: '' @ e]\<rparr>)
      | Stored l \<Rightarrow> Inr (w\<lparr>taskList := l\<rparr>))"

section \<open>Command operations (main.go, lines 173-439)\<close>

text \<open>
  Each definition is the \<open>Run\<close> function of one command. The number of arguments
  is checked by the command-line framework before \<open>Run\<close> is called, so \<open>addCmd\<close>
  takes the list of its arguments (at least one) and the other commands take each
  argument as a string. \<open>now\<close> is what \<open>time.Now()\<close> returns.
\<close>

text \<open>The task that \<open>add\<close> builds (lines 182-202): priority and duration fall back to
  their defaults when the flag does not parse or is out of range.\<close>

definition new_task :: "int \<Rightarrow> string list \<Rightarrow> string \<Rightarrow> string \<Rightarrow> string \<Rightarrow> world \<Rightarrow> Task" where
  "new_task now args requester priorityStr durationStr w =
     (let description = Join args '' '';
          priority = (case Atoi priorityStr of
                        Some p \<Rightarrow> if p \<ge> 1 \<and> p \<le> 5 then p else 3
                      | None \<Rightarrow> 3);
          duration = (case Atoi durationStr of
                        Some d \<Rightarrow> if d > 0 then d else 30
                      | None \<Rightarrow> 30)
      in \<lparr>ID = NextID (taskList w), Description = description,
          Requester = requester, CreatedAt = now, CompletedAt = 0,
          EstimatedDuration = duration, Priority = priority,
          Status = ''pending'', Position = 0\<rparr>)"

definition addCmd ::
    "((Task \<Rightarrow> Task \<Rightarrow> bool) \<Rightarrow> Task list \<Rightarrow> Task list) \<Rightarrow> int \<Rightarrow>
     string list \<Rightarrow> string \<Rightarrow> string \<Rightarrow> string \<Rightarrow> world \<Rightarrow> result" where
  "addCmd srt now args requester priorityStr durationStr w =
     (let task = new_task now args requester priorityStr durationStr w;
          w1 = w\<lparr>taskList := \<lparr>Tasks = Tasks (taskList w) @ [task],
                                NextID = go_add (NextID (taskList w)) 1\<rparr>\<rparr>
      in case saveTasks srt w1 of
           Inl e \<Rightarrow> Inl e
         | Inr w2 \<Rightarrow>
             (let position = (case find (\<lambda>t. ID t = ID task) (Tasks (taskList w2)) of
                                Some t \<Rightarrow> Position t
                              | None \<Rightarrow> 0);
                  waitTime = calculateEstimatedWaitTime position (taskList w2);
                  formattedWaitTime = formatDuration waitTime
              in Inr (w2\<lparr>stdout := stdout w2 @
                        [''Added task #'' @ show_int (ID task) @ '': '' @ Description task,
                         ''Queue position: '' @ show_int position,
                         ''Estimated wait time: '' @ formattedWaitTime]\<rparr>)))"

text \<open>The search loop shared by \<open>complete\<close>, \<open>start\<close> and \<open>estimate\<close>: the first task
  with the identifier is changed in place and the loop breaks; \<open>None\<close> is
  \<open>taskFound = false\<close>.\<close>

fun update_first :: "int \<Rightarrow> (Task \<Rightarrow> Task) \<Rightarrow> Task list \<Rightarrow> Task list option" where
  "update_first i f [] = None"
| "update_first i f (t # ts) =
     (if ID t = i then Some (f t # ts)
      else case update_first i f ts of None \<Rightarrow> None | Some ts' \<Rightarrow> Some (t # ts'))"

definition not_found :: "int \<Rightarrow> world \<Rightarrow> result" where
  "not_found i w = Inl (NotFound, w\<lparr>stderr := stderr w @ [''Task #'' @ show_int i @ '' not found'']\<rparr>)"

definition invalid_id :: "string \<Rightarrow> world \<Rightarrow> result" where
  "invalid_id a w = Inl (InvalidInput, w\<lparr>stderr := stderr w @ [''Invalid task ID: '' @ a]\<rparr>)"

definition completeCmd ::
    "((Task \<Rightarrow> Task \<Rightarrow> bool) \<Rightarrow> Task list \<Rightarrow> Task list) \<Rightarrow> int \<Rightarrow> string \<Rightarrow> world \<Rightarrow> result" where
  "completeCmd srt now arg w =
     (case Atoi arg of
        None \<Rightarrow> invalid_id arg w
      | Some i \<Rightarrow>
          (case update_first i (\<lambda>t. t\<lparr>Status := ''completed'', CompletedAt := now\<rparr>)
                  (Tasks (taskList w)) of
             None \<Rightarrow> not_found i w
           | Some ts \<Rightarrow>
               saveTasks srt
                 (w\<lparr>taskList := (taskList w)\<lparr>Tasks := ts\<rparr>,
                    stdout := stdout w @ [''Marked task #'' @ show_int i @ '' as completed'']\<rparr>)))"

definition startCmd ::
    "((Task \<Rightarrow> Task \<Rightarrow> bool) \<Rightarrow> Task list \<Rightarrow> Task list) \<Rightarrow> string \<Rightarrow> world \<Rightarrow> result" where
  "startCmd srt arg w =
     (case Atoi arg of
        None \<Rightarrow> invalid_id arg w
      | Some i \<Rightarrow>
          (case update_first i (\<lambda>t. t\<lparr>Status := ''in_progress''\<rparr>) (Tasks (taskList w)) of
             None \<Rightarrow> not_found i w
           | Some ts \<Rightarrow>
               saveTasks srt
                 (w\<lparr>taskList := (taskList w)\<lparr>Tasks := ts\<rparr>,
                    stdout := stdout w @ [''Started working on task #'' @ show_int i]\<rparr>)))"

definition estimateCmd ::
    "((Task \<Rightarrow> Task \<Rightarrow> bool) \<Rightarrow> Task list \<Rightarrow> Task list) \<Rightarrow> string \<Rightarrow> string \<Rightarrow> world \<Rightarrow> result" where
  "estimateCmd srt arg0 arg1 w =
     (case Atoi arg0 of
        None \<Rightarrow> invalid_id arg0 w
      | Some i \<Rightarrow>
          (case (case Atoi arg1 of None \<Rightarrow> None | Some d \<Rightarrow> if d \<le> 0 then None else Some d) of
             None \<Rightarrow> Inl (InvalidInput, w\<lparr>stderr := stderr w @ [''Invalid duration: '' @ arg1]\<rparr>)
           | Some duration \<Rightarrow>
               (case update_first i (\<lambda>t. t\<lparr>EstimatedDuration := duration\<rparr>) (Tasks (taskList w)) of
                  None \<Rightarrow> not_found i w
                | Some ts \<Rightarrow>
                    saveTasks srt
                      (w\<lparr>taskList := (taskList w)\<lparr>Tasks := ts\<rparr>,
                         stdout := stdout w @
                           [''Updated estimated duration for task #'' @ show_int i @ '' to '' @
                            show_int duration @ '' minutes'']\<rparr>))))"

text \<open>The search loop of \<open>remove\<close> (lines 372-379): the index of the first task with
  the identifier; \<open>None\<close> is \<open>taskFound = false\<close>.\<close>

fun find_task_index :: "int \<Rightarrow> Task list \<Rightarrow> nat option" where
  "find_task_index i [] = None"
| "find_task_index i (t # ts) =
     (if ID t = i then Some 0
      else case find_task_index i ts of None \<Rightarrow> None | Some k \<Rightarrow> Some (Suc k))"

definition removeCmd ::
    "((Task \<Rightarrow> Task \<Rightarrow> bool) \<Rightarrow> Task list \<Rightarrow> Task list) \<Rightarrow> string \<Rightarrow> world \<Rightarrow> result" where
  "removeCmd srt arg w =
     (case Atoi arg of
        None \<Rightarrow> invalid_id arg w
      | Some i \<Rightarrow>
          (case find_task_index i (Tasks (taskList w)) of
             None \<Rightarrow> not_found i w
           | Some taskIndex \<Rightarrow>
               (let ts = Tasks (taskList w);
                    taskDescription = Description (ts ! taskIndex);
                    w1 = w\<lparr>taskList := (taskList w)\<lparr>Tasks := take taskIndex ts @ drop (Suc taskIndex) ts\<rparr>\<rparr>
                in case saveTasks srt w1 of
                     Inl e \<Rightarrow> Inl e
                   | Inr w2 \<Rightarrow>
                       Inr (w2\<lparr>stdout := stdout w2 @
                              [''Removed task #'' @ show_int i @ '': '' @ taskDescription,
                               ''Queue positions have been updated'']\<rparr>))))"

text \<open>The counting loop of \<open>queue\<close> (lines 404-414); the counters are
  \<open>pendingTasks\<close>, \<open>inProgressTasks\<close>, \<open>completedTasks\<close> and \<open>totalEstimatedTime\<close>.\<close>

fun count_loop :: "Task list \<Rightarrow> int \<times> int \<times> int \<times> int \<Rightarrow> int \<times> int \<times> int \<times> int" where
  "count_loop [] c = c"
| "count_loop (t # ts) (p, i, c, tot) =
     count_loop ts
       (if Status t = ''pending'' then (p + 1, i, c, go_add tot (EstimatedDuration t))
        else if Status t = ''in_progress'' then (p, i + 1, c, tot)
        else if Status t = ''completed'' then (p, i, c + 1, tot)
        else (p, i, c, tot))"

text \<open>The listing loop of \<open>queue\<close> (lines 427-436). \<open>queue_listing\<close> is the sequence of
  tasks for which the loop prints, each with the wait time computed for it, in the
  order in which the loop reaches them; \<open>print_entry\<close> is what it prints for one: the
  line of line 430 and the row of lines 431-434, which is \<open>print_row\<close>.\<close>

fun queue_listing_loop :: "TaskList \<Rightarrow> Task list \<Rightarrow> (int \<times> Task) list" where
  "queue_listing_loop l [] = []"
| "queue_listing_loop l (t # ts) =
     (if Status t = ''pending''
      then (calculateEstimatedWaitTime (Position t) l, t) # queue_listing_loop l ts
      else queue_listing_loop l ts)"

definition queue_listing :: "TaskList \<Rightarrow> (int \<times> Task) list" where
  "queue_listing l = queue_listing_loop l (Tasks l)"

definition print_row :: "Task \<Rightarrow> string" where
  "print_row t =
     pad_left 8 (show_int (Position t)) @ '' | '' @ pad_left 2 (show_int (ID t)) @ '' | '' @
     pad_left 8 (show_int (Priority t)) @ '' | '' @
     pad_left 13 (formatDuration (EstimatedDuration t)) @ '' | '' @
     pad_left 9 (Requester t) @ '' | '' @ Description t"

fun print_entry :: "int \<times> Task \<Rightarrow> string list" where
  "print_entry (waitTime, t) = [''waitTime '' @ show_int waitTime, print_row t]"

definition queueInfoCmd :: "world \<Rightarrow> result" where
  "queueInfoCmd w =
     (case count_loop (Tasks (taskList w)) (0, 0, 0, 0) of
        (pendingTasks, inProgressTasks, completedTasks, totalEstimatedTime) \<Rightarrow>
          (let summary =
                 [''Queue Status Summary:'',
                  ''- Pending tasks: '' @ show_int pendingTasks,
                  ''- In progress tasks: '' @ show_int inProgressTasks,
                  ''- Completed tasks: '' @ show_int completedTasks,
                  ''- Total estimated wait time: '' @ formatDuration totalEstimatedTime];
               listing =
                 (if pendingTasks > 0
                  then [[], ''Current Queue:'',
                        ''Position | ID | Priority | Est. Duration | Requester | Description'',
                        ''---------|----|---------:|---------------|-----------|------------'']
                       @ concat (map print_entry (queue_listing (taskList w)))
                  else [])
           in Inr (w\<lparr>stdout := stdout w @ summary @ listing\<rparr>)))"

section \<open>Invocations\<close>

text \<open>
  One invocation of the program loads the store (\<open>init\<close>, line 44) and runs one
  command. A session is a sequence of invocations on the same file, each with its own
  clock reading.
\<close>

datatype command =
    Add "string list" string string string
  | Complete string
  | Start string
  | Estimate string string
  | Remove string
  | Queue

fun run_command ::
    "((Task \<Rightarrow> Task \<Rightarrow> bool) \<Rightarrow> Task list \<Rightarrow> Task list) \<Rightarrow> int \<Rightarrow> command \<Rightarrow> world \<Rightarrow> result" where
  "run_command srt now (Add args requester priorityStr durationStr) w =
     addCmd srt now args requester priorityStr durationStr w"
| "run_command srt now (Complete a) w = completeCmd srt now a w"
| "run_command srt now (Start a) w = startCmd srt a w"
| "run_command srt now (Estimate a d) w = estimateCmd srt a d w"
| "run_command srt now (Remove a) w = removeCmd srt a w"
| "run_command srt now Queue w = queueInfoCmd w"

definition invoke ::
    "((Task \<Rightarrow> Task \<Rightarrow> bool) \<Rightarrow> Task list \<Rightarrow> Task list) \<Rightarrow> int \<times> command \<Rightarrow> world \<Rightarrow> result" where
  "invoke srt nc w =
     (case loadTasks srt (w\<lparr>taskList := \<lparr>Tasks = [], NextID = 0\<rparr>\<rparr>) of
        Inl e \<Rightarrow> Inl e
      | Inr w1 \<Rightarrow> run_command srt (fst nc) (snd nc) w1)"

fun session ::
    "((Task \<Rightarrow> Task \<Rightarrow> bool) \<Rightarrow> Task list \<Rightarrow> Task list) \<Rightarrow> (int \<times> command) list \<Rightarrow> world \<Rightarrow> world" where
  "session srt [] w = w"
| "session srt (nc # ncs) w = session srt ncs (final_world (invoke srt nc w))"

text \<open>What \<open>loadTasks\<close> finds, or makes, of the file: the stored collection, the empty
  collection when there is no file, nothing when the file cannot be read or parsed.\<close>

fun stored :: "file_state \<Rightarrow> TaskList option" where
  "stored Missing = Some \<lparr>Tasks = [], NextID = 1\<rparr>"
| "stored (Stored l) = Some l"
| "stored _ = None"

section \<open>Specification-level definitions\<close>

text \<open>The invariant of the data model: identifiers are unique and all below the
  next-identifier counter, which is an \<open>int\<close> of Go.\<close>

definition store_inv :: "TaskList \<Rightarrow> bool" where
  "store_inv l = (distinct (ids l) \<and> (\<forall>i \<in> set (ids l). i < NextID l) \<and> int64 (NextID l))"

text \<open>The duration formatter as the specification words it: the parts that are
  shown, joined by a comma and a space.\<close>

definition formatDuration_spec :: "int \<Rightarrow> string" where
  "formatDuration_spec m =
     (let d = m div 1440; h = (m mod 1440) div 60; mi = m mod 60;
          days_part = (if m < 1440 then [] else [show_int d @ '' days'']);
          hours_part = (if m < 60 \<or> h = 0 then [] else [show_int h @ '' hours'']);
          minutes_part = (if 60 \<le> m \<and> mi = 0 then [] else [show_int mi @ '' minutes''])
      in Join (days_part @ hours_part @ minutes_part) '', '')"

section \<open>Definitions used in the proofs\<close>

text \<open>The positions that the outer loop hands out, as a table from identifier to
  position, and a task after the table has been applied to it.\<close>

fun rank_table :: "nat \<Rightarrow> Task list \<Rightarrow> (int \<times> int) list" where
  "rank_table i [] = []"
| "rank_table i (p # ps) = (ID p, int i + 1) # rank_table (Suc i) ps"

definition stamp :: "(int \<times> int) list \<Rightarrow> Task \<Rightarrow> Task" where
  "stamp m t = (case map_of m (ID t) of None \<Rightarrow> t | Some p \<Rightarrow> t\<lparr>Position := p\<rparr>)"

text \<open>The sorted copies of the pending tasks, and some collections to run the
  program on.\<close>

definition sorted_pending :: "((Task \<Rightarrow> Task \<Rightarrow> bool) \<Rightarrow> Task list \<Rightarrow> Task list) \<Rightarrow> TaskList \<Rightarrow> Task list" where
  "sorted_pending srt l = srt less_task (filter pending (Tasks l))"

definition example_task :: "int \<Rightarrow> int \<Rightarrow> int \<Rightarrow> int \<Rightarrow> string \<Rightarrow> int \<Rightarrow> Task" where
  "example_task i created duration priority status position =
     \<lparr>ID = i, Description = ''task'', Requester = ''me'', CreatedAt = created, CompletedAt = 0,
      EstimatedDuration = duration, Priority = priority, Status = status, Position = position\<rparr>"

definition example_store :: TaskList where
  "example_store =
     \<lparr>Tasks = [example_task 1 100 30 3 ''pending'' 0,
               example_task 2 200 45 1 ''pending'' 0,
               (example_task 3 300 60 1 ''completed'' 7)\<lparr>CompletedAt := 350\<rparr>,
               example_task 4 400 15 3 ''pending'' 0],
      NextID = 5\<rparr>"




definition duplicate_store :: TaskList where
  "duplicate_store =
     \<lparr>Tasks = [example_task 1 100 30 3 ''completed'' 7,
               example_task 1 200 45 3 ''pending'' 0],
      NextID = 2\<rparr>"

text \<open>The pending tasks ahead of position \<open>P\<close>.\<close>

definition ahead :: "int \<Rightarrow> Task list \<Rightarrow> Task list" where
  "ahead P ts = filter (\<lambda>t. pending t \<and> Position t < P) ts"

definition example_world :: world where
  "example_world = \<lparr>taskList = example_store, disk = Stored example_store, write_error = None,
                     stdout = [], stderr = []\<rparr>"


text \<open>What an invocation may make of the stored collection: the invariant holds, the
  counter has grown by at most one, and an identifier is an old one or a new one.\<close>

definition later_store :: "TaskList \<Rightarrow> TaskList \<Rightarrow> bool" where
  "later_store l l' =
     (store_inv l' \<and> NextID l \<le> NextID l' \<and> NextID l' \<le> NextID l + 1
      \<and> (\<forall>i\<in>set (ids l'). i \<in> set (ids l) \<or> NextID l \<le> i))"

text \<open>A session that starts without a file.\<close>

definition fresh_world :: world where
  "fresh_world = \<lparr>taskList = \<lparr>Tasks = [], NextID = 0\<rparr>, disk = Missing, write_error = None,
                   stdout = [], stderr = []\<rparr>"

definition example_session :: "(int \<times> command) list" where
  "example_session =
     [(100, Add [''first''] [] ''3'' ''30''), (200, Add [''second''] [] ''1'' ''45''),
      (300, Remove ''1'')]"

section \<open>Duration formatter: properties\<close>

lemma formatDuration_refines: "0 \<le> m \<Longrightarrow> formatDuration m = formatDuration_spec m"
proof -
  assume m: "0 \<le> m"
  have mm: "m mod 1440 mod 60 = m mod 60"
    by (simp add: mod_mod_cancel)
  have h0: "(0 < m mod 1440 div 60) = (m mod 1440 div 60 \<noteq> 0)"
    using pos_mod_sign[of 1440 m] pos_imp_zdiv_nonneg_iff[of 60 "m mod 1440"] by linarith
  have m0: "(0 < m mod 60) = (m mod 60 \<noteq> 0)"
    using pos_mod_sign[of 60 m] by linarith
  consider (a) "m < 60" | (b) "60 \<le> m" "m < 1440" | (c) "1440 \<le> m" by linarith
  then show ?thesis
  proof cases
    case a
    with m show ?thesis by (simp add: formatDuration_def formatDuration_spec_def)
  next
    case b
    then have "m mod 1440 = m" "m div 60 \<noteq> 0" by simp_all
    with b show ?thesis by (simp add: formatDuration_def formatDuration_spec_def Let_def)
  next
    case c
    then show ?thesis
      by (simp add: formatDuration_def formatDuration_spec_def Let_def mm h0 m0)
  qed
qed

text \<open>
  Claim C6. For every non-negative number of minutes \<open>m\<close>, \<open>formatDuration m\<close> is what
  the specification describes: \<open>N minutes\<close> below 60; hours, then minutes unless zero,
  below 1440; otherwise days, then hours unless zero, then minutes unless zero, joined
  by commas. The five examples of the specification evaluate as stated.
\<close>

theorem formatDuration_cases:
  "(\<forall>m\<ge>0. formatDuration m = formatDuration_spec m)
   \<and> formatDuration 45 = ''45 minutes''
   \<and> formatDuration 90 = ''1 hours, 30 minutes''
   \<and> formatDuration 120 = ''2 hours''
   \<and> formatDuration 1500 = ''1 days, 1 hours''
   \<and> formatDuration 2880 = ''2 days''"
proof -
  have e1: "formatDuration 45 = ''45 minutes''" by code_simp
  have e2: "formatDuration 90 = ''1 hours, 30 minutes''" by code_simp
  have e3: "formatDuration 120 = ''2 hours''" by code_simp
  have e4: "formatDuration 1500 = ''1 days, 1 hours''" by code_simp
  have e5: "formatDuration 2880 = ''2 days''" by code_simp
  from formatDuration_refines e1 e2 e3 e4 e5 show ?thesis by blast
qed

theorem formatDuration_cases_witness:
  "(0::int) \<le> 1530 \<and> formatDuration_spec 1530 = ''1 days, 1 hours, 30 minutes''"
proof -
  have "formatDuration 1530 = ''1 days, 1 hours, 30 minutes''" by code_simp
  moreover have "formatDuration 1530 = formatDuration_spec 1530"
    using formatDuration_cases by simp
  ultimately show ?thesis by simp
qed

section \<open>Queue positioner: properties\<close>

lemma set_position_ids: "map ID (set_position i p ts) = map ID ts"
  by (induction ts) auto

lemma set_position_erase:
  "map (\<lambda>t. t\<lparr>Position := 0\<rparr>) (set_position i p ts) = map (\<lambda>t. t\<lparr>Position := 0\<rparr>) ts"
  by (induction ts) auto

lemma assign_positions_erase:
  "map (\<lambda>t. t\<lparr>Position := 0\<rparr>) (assign_positions i ps ts) = map (\<lambda>t. t\<lparr>Position := 0\<rparr>) ts"
  by (induction ps arbitrary: i ts) (auto simp: set_position_erase)

lemma set_position_map:
  "distinct (map ID ts) \<Longrightarrow>
   set_position i p ts = map (\<lambda>t. if ID t = i then t\<lparr>Position := p\<rparr> else t) ts"
proof (induction ts)
  case Nil
  then show ?case by simp
next
  case (Cons t ts)
  show ?case
  proof (cases "ID t = i")
    case True
    from Cons.prems have "ID t \<notin> ID ` set ts" by simp
    with True have "\<forall>u \<in> set ts. ID u \<noteq> i" by (metis imageI)
    then have "map (\<lambda>t. if ID t = i then t\<lparr>Position := p\<rparr> else t) ts = ts"
      by (simp add: map_idI)
    with True show ?thesis by simp
  next
    case False
    with Cons show ?thesis by simp
  qed
qed

lemma rank_table_None: "x \<notin> ID ` set ps \<Longrightarrow> map_of (rank_table i ps) x = None"
  by (induction ps arbitrary: i) auto

lemma rank_table_nth:
  "distinct (map ID ps) \<Longrightarrow> k < length ps \<Longrightarrow>
   map_of (rank_table i ps) (ID (ps ! k)) = Some (int (i + k) + 1)"
proof (induction ps arbitrary: i k)
  case Nil
  then show ?case by simp
next
  case (Cons p ps)
  show ?case
  proof (cases k)
    case 0
    then show ?thesis by simp
  next
    case (Suc j)
    with Cons.prems have j: "j < length ps" and d: "distinct (map ID ps)"
      and notin: "ID p \<notin> ID ` set ps" by auto
    from notin j have ne: "ID (ps ! j) \<noteq> ID p" by (metis imageI nth_mem)
    from Cons.IH[OF d j, of "Suc i"] Suc ne show ?thesis by simp
  qed
qed

lemma assign_positions_map:
  "distinct (map ID ts) \<Longrightarrow> distinct (map ID ps) \<Longrightarrow>
   assign_positions i ps ts = map (stamp (rank_table i ps)) ts"
proof (induction ps arbitrary: i ts)
  case Nil
  then show ?case by (simp add: stamp_def map_idI)
next
  case (Cons p ps)
  let ?f = "\<lambda>t. if ID t = ID p then t\<lparr>Position := int i + 1\<rparr> else t"
  have ids: "map ID (map ?f ts) = map ID ts" by (induction ts) auto
  from Cons.prems have d: "distinct (map ID ps)" and notin: "ID p \<notin> ID ` set ps" by auto
  have "assign_positions i (p # ps) ts = assign_positions (Suc i) ps (map ?f ts)"
    using Cons.prems by (simp add: set_position_map)
  also have "\<dots> = map (stamp (rank_table (Suc i) ps)) (map ?f ts)"
  proof -
    have d2: "distinct (map ID (map ?f ts))"
      using Cons.prems(1) by (simp only: ids)
    show ?thesis by (rule Cons.IH[OF d2 d])
  qed
  also have "\<dots> = map (stamp (rank_table i (p # ps))) ts"
    using rank_table_None[OF notin, of "Suc i"] by (auto simp: stamp_def)
  finally show ?case .
qed

lemma stamp_fields [simp]:
  "ID (stamp m t) = ID t" "Status (stamp m t) = Status t" "Priority (stamp m t) = Priority t"
  "CreatedAt (stamp m t) = CreatedAt t" "pending (stamp m t) = pending t"
  by (auto simp: stamp_def pending_def split: option.splits)

lemma stamp_erase: "(stamp m t)\<lparr>Position := Position t\<rparr> = t"
  by (auto simp: stamp_def split: option.splits)

lemma sorted_pending_facts:
  assumes spec: "sort_Slice_spec less_task srt" and d: "distinct (map ID ts)"
  defines "ps \<equiv> srt less_task (filter pending ts)"
  shows "mset ps = mset (filter pending ts)"
    and "set ps = set (filter pending ts)"
    and "length ps = length (filter pending ts)"
    and "distinct (map ID ps)"
    and "sorted_wrt (\<lambda>a b. \<not> less_task b a) ps"
    and "assign_positions 0 ps ts = map (stamp (rank_table 0 ps)) ts"
proof -
  from spec show m: "mset ps = mset (filter pending ts)"
    and "sorted_wrt (\<lambda>a b. \<not> less_task b a) ps"
    by (simp_all add: sort_Slice_spec_def ps_def)
  from m show "set ps = set (filter pending ts)" by (rule mset_eq_setD)
  from m show "length ps = length (filter pending ts)" by (rule mset_eq_length)
  have "mset (map ID ps) = mset (map ID (filter pending ts))" using m by simp
  moreover have "distinct (map ID (filter pending ts))" using d by (rule distinct_map_filter)
  ultimately show dp: "distinct (map ID ps)" by (metis mset_eq_imp_distinct_iff)
  from d dp show "assign_positions 0 ps ts = map (stamp (rank_table 0 ps)) ts"
    by (rule assign_positions_map)
qed

lemma stamp_sorted_nth:
  "distinct (map ID ps) \<Longrightarrow> k < length ps \<Longrightarrow>
   stamp (rank_table 0 ps) (ps ! k) = (ps ! k)\<lparr>Position := int k + 1\<rparr>"
  using rank_table_nth[of ps k 0] by (simp add: stamp_def)

lemma stamp_not_pending:
  assumes "distinct (map ID ts)" "set ps = set (filter pending ts)" "t \<in> set ts" "\<not> pending t"
  shows "stamp (rank_table i ps) t = t"
proof -
  have "ID t \<notin> ID ` set ps"
  proof
    assume "ID t \<in> ID ` set ps"
    then obtain q where q: "q \<in> set ps" "ID q = ID t" by auto
    with assms(2) have "q \<in> set ts" "pending q" by auto
    with assms(1,3) q(2) have "q = t" by (meson distinct_map inj_onD)
    with \<open>pending q\<close> assms(4) show False by simp
  qed
  then show ?thesis by (simp add: stamp_def rank_table_None)
qed

lemma stamp_pending:
  assumes "distinct (map ID ps)" "set ps = set (filter pending ts)" "t \<in> set ts" "pending t"
  obtains k where "k < length ps" "ps ! k = t"
    "stamp (rank_table 0 ps) t = t\<lparr>Position := int k + 1\<rparr>"
proof -
  from assms(2,3,4) have "t \<in> set ps" by simp
  then obtain k where k: "k < length ps" "ps ! k = t" by (auto simp: in_set_conv_nth)
  with stamp_sorted_nth[OF assms(1) k(1)] that show thesis by simp
qed

lemma positions_mset:
  assumes "distinct (map ID ps)" "mset ps = mset qs"
  shows "mset (map (\<lambda>t. Position (stamp (rank_table 0 ps) t)) qs)
         = mset (map (\<lambda>k. int k + 1) [0..<length ps])"
proof -
  have "map (\<lambda>t. Position (stamp (rank_table 0 ps) t)) ps = map (\<lambda>k. int k + 1) [0..<length ps]"
    using assms(1) by (auto intro!: nth_equalityI simp: stamp_sorted_nth)
  moreover have "mset (map (\<lambda>t. Position (stamp (rank_table 0 ps) t)) qs)
      = mset (map (\<lambda>t. Position (stamp (rank_table 0 ps) t)) ps)"
    using assms(2) by (metis mset_map)
  ultimately show ?thesis by simp
qed

lemma image_ranks: "(\<lambda>k. int k + 1) ` {0..<n} = {1..int n}"
proof (rule set_eqI)
  fix x :: int
  show "x \<in> (\<lambda>k. int k + 1) ` {0..<n} \<longleftrightarrow> x \<in> {1..int n}"
  proof
    assume "x \<in> (\<lambda>k. int k + 1) ` {0..<n}"
    then show "x \<in> {1..int n}" by auto
  next
    assume x: "x \<in> {1..int n}"
    then have "nat (x - 1) \<in> {0..<n}" "x = int (nat (x - 1)) + 1" by auto
    then show "x \<in> (\<lambda>k. int k + 1) ` {0..<n}" by (rule rev_image_eqI)
  qed
qed

lemma filter_pending_stamp: "filter pending (map (stamp m) ts) = map (stamp m) (filter pending ts)"
  by (induction ts) auto

subsection \<open>Sorting functions that meet the contract of \<open>sort.Slice\<close>\<close>

lemma set_insert_by: "set (insert_by lt x ys) = insert x (set ys)"
  by (induction ys) auto

lemma mset_insert_by: "mset (insert_by lt x ys) = add_mset x (mset ys)"
  by (induction ys) auto

lemma mset_insertion_sort: "mset (insertion_sort lt xs) = mset xs"
  by (induction xs) (auto simp: mset_insert_by)

lemma sorted_insert_by:
  assumes asym: "\<And>a b. lt a b \<Longrightarrow> \<not> lt b a"
    and negtrans: "\<And>a b c. \<not> lt a b \<Longrightarrow> \<not> lt b c \<Longrightarrow> \<not> lt a c"
  shows "sorted_wrt (\<lambda>a b. \<not> lt b a) ys \<Longrightarrow> sorted_wrt (\<lambda>a b. \<not> lt b a) (insert_by lt x ys)"
proof (induction ys)
  case Nil
  then show ?case by simp
next
  case (Cons y ys)
  show ?case
  proof (cases "lt y x")
    case True
    with Cons asym show ?thesis by (auto simp: set_insert_by)
  next
    case False
    with Cons negtrans show ?thesis by auto
  qed
qed

lemma sorted_insertion_sort:
  assumes asym: "\<And>a b. lt a b \<Longrightarrow> \<not> lt b a"
    and negtrans: "\<And>a b c. \<not> lt a b \<Longrightarrow> \<not> lt b c \<Longrightarrow> \<not> lt a c"
  shows "sorted_wrt (\<lambda>a b. \<not> lt b a) (insertion_sort lt xs)"
  by (induction xs) (auto intro: sorted_insert_by[OF asym negtrans])

lemma less_task_asym: "less_task a b \<Longrightarrow> \<not> less_task b a"
  by (auto simp: less_task_def split: if_splits)

lemma less_task_negtrans: "\<not> less_task a b \<Longrightarrow> \<not> less_task b c \<Longrightarrow> \<not> less_task a c"
  by (auto simp: less_task_def split: if_splits)

lemma insertion_sort_spec: "sort_Slice_spec less_task insertion_sort"
  unfolding sort_Slice_spec_def
  using sorted_insertion_sort[of less_task, OF less_task_asym less_task_negtrans]
  by (simp add: mset_insertion_sort)

lemma not_less_task:
  "\<not> less_task b a \<longleftrightarrow> Priority a < Priority b \<or> (Priority a = Priority b \<and> CreatedAt a \<le> CreatedAt b)"
  by (auto simp: less_task_def)

lemma updateQueuePositions_Tasks:
  "Tasks (updateQueuePositions srt l) =
     assign_positions 0 (srt less_task (filter pending (Tasks l))) (Tasks l)"
  by (simp add: updateQueuePositions_def Let_def)

lemma updateQueuePositions_NextID: "NextID (updateQueuePositions srt l) = NextID l"
  by (simp add: updateQueuePositions_def Let_def)

subsection \<open>The positioner on a collection with unique identifiers\<close>

lemma sorted_pending_props:
  assumes spec: "sort_Slice_spec less_task srt" and d: "distinct (ids l)"
  shows "mset (sorted_pending srt l) = mset (filter pending (Tasks l))"
    and "set (sorted_pending srt l) = set (filter pending (Tasks l))"
    and "length (sorted_pending srt l) = length (filter pending (Tasks l))"
    and "distinct (map ID (sorted_pending srt l))"
    and "sorted_wrt (\<lambda>a b. \<not> less_task b a) (sorted_pending srt l)"
    and "Tasks (updateQueuePositions srt l) =
           map (stamp (rank_table 0 (sorted_pending srt l))) (Tasks l)"
  using sorted_pending_facts[OF spec, of "Tasks l"] d
  by (simp_all add: ids_def sorted_pending_def updateQueuePositions_Tasks)

lemma positioner_not_pending:
  assumes "sort_Slice_spec less_task srt" "distinct (ids l)" "t \<in> set (Tasks l)" "\<not> pending t"
  shows "stamp (rank_table 0 (sorted_pending srt l)) t = t"
  using stamp_not_pending[OF _ sorted_pending_props(2)[OF assms(1,2)] assms(3,4)] assms(2)
  by (simp add: ids_def)

lemma positioner_pending:
  assumes "sort_Slice_spec less_task srt" "distinct (ids l)" "t \<in> set (Tasks l)" "pending t"
  obtains k where "k < length (sorted_pending srt l)" "sorted_pending srt l ! k = t"
    "stamp (rank_table 0 (sorted_pending srt l)) t = t\<lparr>Position := int k + 1\<rparr>"
  using stamp_pending[OF sorted_pending_props(4)[OF assms(1,2)]
      sorted_pending_props(2)[OF assms(1,2)] assms(3,4)]
  by blast

lemma positioner_order:
  assumes spec: "sort_Slice_spec less_task srt" and d: "distinct (ids l)"
    and a: "a \<in> set (Tasks l)" "pending a" and b: "b \<in> set (Tasks l)" "pending b"
    and lt: "Position (stamp (rank_table 0 (sorted_pending srt l)) a)
              < Position (stamp (rank_table 0 (sorted_pending srt l)) b)"
  shows "\<not> less_task b a"
proof -
  from positioner_pending[OF spec d a] obtain i where
    i: "i < length (sorted_pending srt l)" "sorted_pending srt l ! i = a"
      "stamp (rank_table 0 (sorted_pending srt l)) a = a\<lparr>Position := int i + 1\<rparr>"
    by blast
  from positioner_pending[OF spec d b] obtain j where
    j: "j < length (sorted_pending srt l)" "sorted_pending srt l ! j = b"
      "stamp (rank_table 0 (sorted_pending srt l)) b = b\<lparr>Position := int j + 1\<rparr>"
    by blast
  from lt have "i < j" by (simp add: i(3) j(3))
  with sorted_pending_props(5)[OF spec d] j(1)
  have "\<not> less_task (sorted_pending srt l ! j) (sorted_pending srt l ! i)"
    by (simp add: sorted_wrt_iff_nth_less)
  then show ?thesis by (simp add: i(2) j(2))
qed


lemma positioner_ranks:
  assumes spec: "sort_Slice_spec less_task srt" and d: "distinct (ids l)"
  shows "mset (map Position (filter pending (Tasks (updateQueuePositions srt l))))
         = mset (map (\<lambda>k. int k + 1) [0..<length (filter pending (Tasks l))])"
  using positions_mset[OF sorted_pending_props(4)[OF spec d] sorted_pending_props(1)[OF spec d]]
  by (simp add: sorted_pending_props(3,6)[OF spec d] filter_pending_stamp comp_def)

text \<open>
  The positioner writes a position back to the first task that carries the identifier
  of the sorted copy, so the results of this section need the identifiers to be unique.
  On a collection in which a completed task and a later pending task share their
  identifier, the completed task gets position 1 and the pending one keeps its position.
\<close>

lemma duplicate_identifiers_example:
  "map Status (Tasks duplicate_store) = [''completed'', ''pending'']
   \<and> map Position (Tasks duplicate_store) = [7, 0]
   \<and> map Position (Tasks (updateQueuePositions insertion_sort duplicate_store)) = [1, 0]"
  by code_simp

text \<open>
  Claim C1. On a collection whose identifiers are unique (the invariant of the data
  model), and with any sorting function that keeps the promise of \<open>sort.Slice\<close>,
  after the positioner has run: there are as many pending tasks as before; their
  positions are exactly the numbers \<open>1..N\<close>, each once; a pending task with a smaller
  position has a smaller priority number, or the same priority and a creation time
  that is not later; conversely a pending task with a smaller priority number, or
  with the same priority and an earlier creation time, has the smaller position; and
  the position of every task that is not pending is what it was.
\<close>

theorem positions_after_update:
  assumes spec: "sort_Slice_spec less_task srt" and d: "distinct (ids l)"
  shows "(let ts = Tasks (updateQueuePositions srt l); P = filter pending ts in
      length P = length (filter pending (Tasks l))
    \<and> Position ` set P = {1..int (length P)}
    \<and> distinct (map Position P)
    \<and> (\<forall>a\<in>set P. \<forall>b\<in>set P. Position a < Position b \<longrightarrow>
          Priority a < Priority b \<or> (Priority a = Priority b \<and> CreatedAt a \<le> CreatedAt b))
    \<and> (\<forall>a\<in>set P. \<forall>b\<in>set P.
          Priority a < Priority b \<or> (Priority a = Priority b \<and> CreatedAt a < CreatedAt b) \<longrightarrow>
          Position a < Position b)
    \<and> length ts = length (Tasks l)
    \<and> (\<forall>k<length ts. \<not> pending (Tasks l ! k) \<longrightarrow> Position (ts ! k) = Position (Tasks l ! k)))"
proof -
  define m where "m = rank_table 0 (sorted_pending srt l)"
  define ts where "ts = Tasks (updateQueuePositions srt l)"
  define P where "P = filter pending ts"
  note f = sorted_pending_props[OF spec d]
  have ts: "ts = map (stamp m) (Tasks l)" by (simp add: ts_def f(6) m_def)
  have P: "P = map (stamp m) (filter pending (Tasks l))"
    by (simp add: P_def ts filter_pending_stamp)
  have c1: "length P = length (filter pending (Tasks l))" by (simp add: P)
  have pm: "mset (map Position P) = mset (map (\<lambda>k. int k + 1) [0..<length P])"
    using positioner_ranks[OF spec d] by (simp add: P_def ts_def c1[unfolded P_def ts_def])
  have "set (map Position P) = set (map (\<lambda>k. int k + 1) [0..<length P])"
    using pm by (rule mset_eq_setD)
  then have c2: "Position ` set P = {1..int (length P)}"
    by (simp add: image_ranks)
  have "distinct (map (\<lambda>k. int k + 1) [0..<length P])"
    by (simp add: distinct_map inj_on_def)
  with pm have c3: "distinct (map Position P)" by (metis mset_eq_imp_distinct_iff)
  have c4: "Priority a < Priority b \<or> (Priority a = Priority b \<and> CreatedAt a \<le> CreatedAt b)"
    if a: "a \<in> set P" and b: "b \<in> set P" and lt: "Position a < Position b" for a b
  proof -
    from a obtain a0 where a0: "a0 \<in> set (Tasks l)" "pending a0" "a = stamp m a0"
      by (auto simp: P)
    from b obtain b0 where b0: "b0 \<in> set (Tasks l)" "pending b0" "b = stamp m b0"
      by (auto simp: P)
    from lt have "\<not> less_task b0 a0"
      using positioner_order[OF spec d a0(1,2) b0(1,2)] by (simp add: a0(3) b0(3) m_def)
    then show ?thesis by (simp add: not_less_task a0(3) b0(3))
  qed
  have c4': "Position a < Position b"
    if a: "a \<in> set P" and b: "b \<in> set P"
      and lt: "Priority a < Priority b \<or> (Priority a = Priority b \<and> CreatedAt a < CreatedAt b)"
    for a b
  proof (rule ccontr)
    assume n: "\<not> Position a < Position b"
    from lt have "a \<noteq> b" by auto
    moreover from c3 have "inj_on Position (set P)" by (simp add: distinct_map)
    ultimately have "Position a \<noteq> Position b" using a b by (auto dest: inj_onD)
    with n have "Position b < Position a" by simp
    from c4[OF b a this] lt show False by linarith
  qed
  have c5: "length ts = length (Tasks l)" by (simp add: ts)
  have c6: "Position (ts ! k) = Position (Tasks l ! k)"
    if "k < length ts" "\<not> pending (Tasks l ! k)" for k
    using that positioner_not_pending[OF spec d, of "Tasks l ! k"]
    by (simp add: ts m_def)
  from c1 c2 c3 c4 c4' c5 c6 show ?thesis
    unfolding Let_def ts_def[symmetric] P_def[symmetric] by blast
qed

theorem positions_after_update_witness:
  "sort_Slice_spec less_task insertion_sort \<and> distinct (ids example_store)
   \<and> map Position (Tasks (updateQueuePositions insertion_sort example_store)) = [2, 1, 7, 3]
   \<and> Position ` set (filter pending (Tasks (updateQueuePositions insertion_sort example_store)))
       = {1..3}"
proof -
  have d: "distinct (ids example_store)"
    by (simp add: ids_def example_store_def example_task_def)
  have e: "map Position (Tasks (updateQueuePositions insertion_sort example_store)) = [2, 1, 7, 3]"
    by code_simp
  have n: "length (filter pending (Tasks example_store)) = 3"
    by (simp add: example_store_def example_task_def pending_def)
  from positions_after_update[OF insertion_sort_spec d] n
  have "Position ` set (filter pending (Tasks (updateQueuePositions insertion_sort example_store)))
       = {1..3}"
    by (simp add: Let_def)
  with insertion_sort_spec d e show ?thesis by simp
qed

text \<open>
  Claim C9. On a collection whose identifiers are unique, the positioner leaves the
  next-identifier counter and the number of tasks as they are; the task at every index
  of the collection is the task that was there, up to its \<open>Position\<close> field; and a
  task that is not pending is not changed at all.
\<close>

theorem updateQueuePositions_frame:
  assumes spec: "sort_Slice_spec less_task srt" and d: "distinct (ids l)"
  shows "(let l' = updateQueuePositions srt l in
      NextID l' = NextID l \<and> length (Tasks l') = length (Tasks l)
    \<and> (\<forall>k<length (Tasks l).
          (Tasks l' ! k)\<lparr>Position := Position (Tasks l ! k)\<rparr> = Tasks l ! k
        \<and> (\<not> pending (Tasks l ! k) \<longrightarrow> Tasks l' ! k = Tasks l ! k)))"
  using positioner_not_pending[OF spec d]
  by (simp add: Let_def updateQueuePositions_NextID sorted_pending_props(6)[OF spec d] stamp_erase)

theorem updateQueuePositions_frame_witness:
  "sort_Slice_spec less_task insertion_sort \<and> distinct (ids example_store)
   \<and> \<not> pending (Tasks example_store ! 2)
   \<and> Tasks (updateQueuePositions insertion_sort example_store) ! 2 = Tasks example_store ! 2
   \<and> (Tasks (updateQueuePositions insertion_sort example_store) ! 0)
        \<lparr>Position := Position (Tasks example_store ! 0)\<rparr> = Tasks example_store ! 0"
proof -
  have d: "distinct (ids example_store)"
    by (simp add: ids_def example_store_def example_task_def)
  have n: "\<not> pending (Tasks example_store ! 2)" "length (Tasks example_store) = 4"
    by (simp_all add: example_store_def example_task_def pending_def)
  from updateQueuePositions_frame[OF insertion_sort_spec d] n insertion_sort_spec d
  show ?thesis by (simp add: Let_def)
qed

section \<open>Wait-time estimator: properties\<close>

lemma int64_wrap64: "int64 (wrap64 x)"
  unfolding int64_def wrap64_def
  using pos_mod_sign[of "2 ^ 64" "x + 2 ^ 63"] pos_mod_bound[of "2 ^ 64" "x + 2 ^ 63"]
  by simp

lemma wrap64_id: "int64 x \<Longrightarrow> wrap64 x = x"
  unfolding int64_def wrap64_def by (simp add: mod_pos_pos_trivial)

lemma wrap64_add_left: "wrap64 (wrap64 a + b) = wrap64 (a + b)"
proof -
  have "(((a + 2 ^ 63) mod 2 ^ 64 - 2 ^ 63) + b + 2 ^ 63) mod (2 ^ 64 :: int)
        = ((a + 2 ^ 63) mod 2 ^ 64 + b) mod 2 ^ 64"
    by (simp add: algebra_simps)
  also have "\<dots> = (a + 2 ^ 63 + b) mod 2 ^ 64"
    by (rule mod_add_left_eq)
  finally show ?thesis
    by (simp add: wrap64_def algebra_simps)
qed

lemma wait_loop_sum:
  "int64 acc \<Longrightarrow>
   wait_loop P acc ts = wrap64 (acc + sum_list (map EstimatedDuration (ahead P ts)))"
proof (induction ts arbitrary: acc)
  case Nil
  then show ?case by (simp add: ahead_def wrap64_id)
next
  case (Cons t ts)
  show ?case
  proof (cases "pending t \<and> Position t < P")
    case True
    have "wait_loop P acc (t # ts) = wait_loop P (go_add acc (EstimatedDuration t)) ts"
      using True by (simp add: pending_def)
    also have "\<dots> = wrap64 (wrap64 (acc + EstimatedDuration t)
                        + sum_list (map EstimatedDuration (ahead P ts)))"
      using Cons.IH[of "go_add acc (EstimatedDuration t)"]
      by (simp add: go_add_def int64_wrap64)
    also have "\<dots> = wrap64 (acc + sum_list (map EstimatedDuration (ahead P (t # ts))))"
      using True by (simp add: wrap64_add_left ahead_def add.assoc)
    finally show ?thesis .
  next
    case False
    then show ?thesis using Cons by (auto simp: pending_def ahead_def)
  qed
qed

lemma int64_0: "int64 0"
  by (simp add: int64_def)

lemma fresh_positions_positive:
  assumes spec: "sort_Slice_spec less_task srt" and d: "distinct (ids l)"
    and t: "t \<in> set (Tasks (updateQueuePositions srt l))" "pending t"
  shows "1 \<le> Position t"
proof -
  from t obtain t0 where t0: "t0 \<in> set (Tasks l)" "pending t0"
      "t = stamp (rank_table 0 (sorted_pending srt l)) t0"
    by (auto simp: sorted_pending_props(6)[OF spec d])
  from positioner_pending[OF spec d t0(1,2)] obtain k where
    "t = t0\<lparr>Position := int k + 1\<rparr>" unfolding t0(3) by blast
  then show ?thesis by simp
qed

text \<open>
  Claim C2. For every target position \<open>P\<close>, the estimator returns the sum of the
  estimated durations of the pending tasks whose position is below \<open>P\<close>, computed in
  Go's \<open>int\<close>: it is that sum whenever the sum fits 64 bits. It returns 0 when no pending
  task has a position below \<open>P\<close>, and the wait time for position 1 is 0 once the
  positioner has run (on a collection with unique identifiers), as every pending task
  then has a position of at least 1.
\<close>

theorem wait_time_sum:
  "(let S = sum_list (map EstimatedDuration
                        (filter (\<lambda>t. pending t \<and> Position t < P) (Tasks l)))
    in calculateEstimatedWaitTime P l = wrap64 S
       \<and> (int64 S \<longrightarrow> calculateEstimatedWaitTime P l = S))
   \<and> ((\<forall>t\<in>set (Tasks l). pending t \<longrightarrow> \<not> Position t < P) \<longrightarrow>
        calculateEstimatedWaitTime P l = 0)
   \<and> (sort_Slice_spec less_task srt \<and> distinct (ids l) \<longrightarrow>
        calculateEstimatedWaitTime 1 (updateQueuePositions srt l) = 0)"
proof -
  have eq: "calculateEstimatedWaitTime P l = wrap64 (sum_list (map EstimatedDuration (ahead P (Tasks l))))"
    for P l
    using wait_loop_sum[OF int64_0] by (simp add: calculateEstimatedWaitTime_def)
  have none: "calculateEstimatedWaitTime P l = 0"
    if "\<forall>t\<in>set (Tasks l). pending t \<longrightarrow> \<not> Position t < P" for P l
  proof -
    from that have "ahead P (Tasks l) = []" by (auto simp: ahead_def filter_empty_conv)
    then show ?thesis by (simp add: eq wrap64_id int64_0)
  qed
  have fresh: "calculateEstimatedWaitTime 1 (updateQueuePositions srt l) = 0"
    if "sort_Slice_spec less_task srt" "distinct (ids l)"
    using fresh_positions_positive[OF that] by (intro none) force
  from eq[of P l] none[of l P] fresh show ?thesis
    by (auto simp: Let_def ahead_def wrap64_id)
qed

theorem wait_time_sum_witness:
  "int64 (sum_list (map EstimatedDuration
        (filter (\<lambda>t. pending t \<and> Position t < 3)
           (Tasks (updateQueuePositions insertion_sort example_store)))))
   \<and> calculateEstimatedWaitTime 3 (updateQueuePositions insertion_sort example_store) = 75
   \<and> sort_Slice_spec less_task insertion_sort \<and> distinct (ids example_store)
   \<and> filter (\<lambda>t. pending t \<and> Position t < 1)
         (Tasks (updateQueuePositions insertion_sort example_store)) = []
   \<and> calculateEstimatedWaitTime 1 (updateQueuePositions insertion_sort example_store) = 0"
proof -
  have s: "sum_list (map EstimatedDuration
        (filter (\<lambda>t. pending t \<and> Position t < 3)
           (Tasks (updateQueuePositions insertion_sort example_store)))) = 75"
    by code_simp
  have d: "distinct (ids example_store)"
    by (simp add: ids_def example_store_def example_task_def)
  have p: "\<forall>t\<in>set (Tasks (updateQueuePositions insertion_sort example_store)).
          pending t \<longrightarrow> \<not> Position t < 1"
    by code_simp
  have q: "filter (\<lambda>t. pending t \<and> Position t < 1)
         (Tasks (updateQueuePositions insertion_sort example_store)) = []"
    by code_simp
  from wait_time_sum[where P = 3 and l = "updateQueuePositions insertion_sort example_store"]
    wait_time_sum[where l = example_store and srt = insertion_sort]
    s d p q insertion_sort_spec
  show ?thesis by (simp add: Let_def int64_def wrap64_def)
qed

section \<open>Queue positioner: tasks that compare equal\<close>

subsection \<open>\<open>sort.Slice\<close> on at most 12 elements\<close>
















section \<open>Commands on an identifier that matches no task\<close>

lemma update_first_None: "update_first i f ts = None \<longleftrightarrow> i \<notin> ID ` set ts"
  by (induction ts) (auto split: option.splits)

lemma find_task_index_None: "find_task_index i ts = None \<longleftrightarrow> i \<notin> ID ` set ts"
  by (induction ts) (auto split: option.splits)

text \<open>
  Claim C3. When the identifier given to \<open>complete\<close>, \<open>start\<close>, \<open>estimate\<close> (with a
  valid duration) or \<open>remove\<close> matches no task, the command prints
  \<open>Task #id not found\<close> on standard error and exits with status 1, in a state that
  differs from the one it started in by that message only: the collection in memory
  and the file are unchanged, nothing having been saved. With an invalid duration
  \<open>estimate\<close> stops earlier, on the duration; it exits with status 1 and changes
  neither the collection nor the file all the same.
\<close>

theorem unknown_id_not_found:
  assumes a: "Atoi a = Some i" and i: "i \<notin> set (ids (taskList w))"
  shows "(let r = Inl (NotFound, w\<lparr>stderr := stderr w @ [''Task #'' @ show_int i @ '' not found'']\<rparr>) in
      completeCmd srt now a w = r \<and> startCmd srt a w = r \<and> removeCmd srt a w = r
    \<and> (\<forall>d n. Atoi d = Some n \<and> 0 < n \<longrightarrow> estimateCmd srt a d w = r)
    \<and> (\<forall>d. exit_code (estimateCmd srt a d w) = 1
           \<and> taskList (final_world (estimateCmd srt a d w)) = taskList w
           \<and> disk (final_world (estimateCmd srt a d w)) = disk w)
    \<and> exit_code r = 1 \<and> taskList (final_world r) = taskList w \<and> disk (final_world r) = disk w
    \<and> stdout (final_world r) = stdout w)"
proof -
  from i have u: "update_first i f (Tasks (taskList w)) = None" for f
    by (simp add: update_first_None ids_def)
  from i have fi: "find_task_index i (Tasks (taskList w)) = None"
    by (simp add: find_task_index_None ids_def)
  have est: "exit_code (estimateCmd srt a d w) = 1
           \<and> taskList (final_world (estimateCmd srt a d w)) = taskList w
           \<and> disk (final_world (estimateCmd srt a d w)) = disk w" for d
    by (simp add: estimateCmd_def a u not_found_def split: option.splits)
  show ?thesis
    using est by (simp add: Let_def completeCmd_def startCmd_def removeCmd_def estimateCmd_def
        a u fi not_found_def)
qed

theorem unknown_id_not_found_witness:
  "Atoi ''9'' = Some 9 \<and> 9 \<notin> set (ids (taskList example_world))
   \<and> Atoi ''20'' = Some 20 \<and> (0::int) < 20
   \<and> removeCmd insertion_sort ''9'' example_world
       = Inl (NotFound, example_world\<lparr>stderr := [''Task #9 not found'']\<rparr>)
   \<and> estimateCmd insertion_sort ''9'' ''20'' example_world
       = Inl (NotFound, example_world\<lparr>stderr := [''Task #9 not found'']\<rparr>)"
proof -
  have a: "Atoi ''9'' = Some 9" by code_simp
  have d: "Atoi ''20'' = Some 20" by code_simp
  have i: "9 \<notin> set (ids (taskList example_world))"
    by (simp add: ids_def example_world_def example_store_def example_task_def)
  have s: "show_int 9 = ''9''" by code_simp
  have e: "stderr example_world = []" by (simp add: example_world_def)
  from unknown_id_not_found[OF a i, of insertion_sort 0] a d i s e
  show ?thesis by (simp add: Let_def)
qed

section \<open>The \<open>add\<close> command\<close>

lemma assign_positions_length: "length (assign_positions i ps ts) = length ts"
  using arg_cong[OF assign_positions_erase[of i ps ts], of length] by simp

lemma erased_fields:
  assumes "a\<lparr>Position := 0\<rparr> = b\<lparr>Position := 0\<rparr>"
  shows "ID a = ID b" "Description a = Description b" "Requester a = Requester b"
    "CreatedAt a = CreatedAt b" "CompletedAt a = CompletedAt b"
    "EstimatedDuration a = EstimatedDuration b" "Priority a = Priority b" "Status a = Status b"
  using arg_cong[OF assms, of ID] arg_cong[OF assms, of Description]
    arg_cong[OF assms, of Requester] arg_cong[OF assms, of CreatedAt]
    arg_cong[OF assms, of CompletedAt] arg_cong[OF assms, of EstimatedDuration]
    arg_cong[OF assms, of Priority] arg_cong[OF assms, of Status]
  by simp_all

lemma assign_positions_last:
  assumes "ts \<noteq> []"
  shows "(last (assign_positions i ps ts))\<lparr>Position := 0\<rparr> = (last ts)\<lparr>Position := 0\<rparr>"
proof -
  from assms have ne: "assign_positions i ps ts \<noteq> []"
    using assign_positions_length[of i ps ts] by auto
  have "last (map (\<lambda>t. t\<lparr>Position := 0\<rparr>) (assign_positions i ps ts))
        = last (map (\<lambda>t. t\<lparr>Position := 0\<rparr>) ts)"
    by (simp only: assign_positions_erase)
  with assms ne show ?thesis by (simp add: last_map)
qed

lemma saveTasks_ok:
  "write_error w = None \<Longrightarrow>
   saveTasks srt w = Inr (w\<lparr>taskList := updateQueuePositions srt (taskList w),
                            disk := Stored (updateQueuePositions srt (taskList w))\<rparr>)"
  by (simp add: saveTasks_def Let_def)

lemma addCmd_taskList:
  "taskList (final_world (addCmd srt now args requester priorityStr durationStr w)) =
     updateQueuePositions srt
       \<lparr>Tasks = Tasks (taskList w) @ [new_task now args requester priorityStr durationStr w],
        NextID = go_add (NextID (taskList w)) 1\<rparr>"
  by (simp add: addCmd_def Let_def saveTasks_def split: option.splits)

lemma addCmd_error: "addCmd srt now args requester priorityStr durationStr w = Inl (e, w') \<Longrightarrow> e = FatalIO"
  by (auto simp: addCmd_def Let_def saveTasks_def split: option.splits)

lemma addCmd_ok:
  "write_error w = None \<Longrightarrow>
     exit_code (addCmd srt now args requester priorityStr durationStr w) = 0
   \<and> disk (final_world (addCmd srt now args requester priorityStr durationStr w))
       = Stored (taskList (final_world (addCmd srt now args requester priorityStr durationStr w)))"
  by (simp add: addCmd_def Let_def saveTasks_def)

lemma addCmd_stderr:
  "stderr (final_world (addCmd srt now args requester priorityStr durationStr w)) =
     stderr w @ (case write_error w of None \<Rightarrow> []
                 | Some e \<Rightarrow> [''Error writing tasks file: '' @ e])"
  by (simp add: addCmd_def Let_def saveTasks_def split: option.splits)

lemma addCmd_last:
  "Tasks (taskList (final_world (addCmd srt now args requester priorityStr durationStr w))) \<noteq> []
   \<and> length (Tasks (taskList (final_world (addCmd srt now args requester priorityStr durationStr w))))
       = Suc (length (Tasks (taskList w)))
   \<and> (last (Tasks (taskList (final_world (addCmd srt now args requester priorityStr durationStr w)))))
        \<lparr>Position := 0\<rparr> = new_task now args requester priorityStr durationStr w"
proof -
  let ?t = "new_task now args requester priorityStr durationStr w"
  let ?ts = "Tasks (taskList w) @ [?t]"
  let ?ps = "srt less_task (filter pending ?ts)"
  have T: "Tasks (taskList (final_world (addCmd srt now args requester priorityStr durationStr w)))
           = assign_positions 0 ?ps ?ts"
    by (simp add: addCmd_taskList updateQueuePositions_Tasks)
  have len: "length (assign_positions 0 ?ps ?ts) = Suc (length (Tasks (taskList w)))"
    by (simp add: assign_positions_length)
  then have ne: "assign_positions 0 ?ps ?ts \<noteq> []" by auto
  have "(last (assign_positions 0 ?ps ?ts))\<lparr>Position := 0\<rparr> = (last ?ts)\<lparr>Position := 0\<rparr>"
    by (rule assign_positions_last) simp
  also have "\<dots> = ?t" by (simp add: new_task_def Let_def)
  finally show ?thesis using len ne by (simp only: T) simp
qed

text \<open>
  Claim C7. Whatever its arguments, \<open>add\<close> appends one pending task carrying the
  next identifier. When the priority flag does not parse as a number or is outside
  \<open>[1,5]\<close> the task has priority 3, and when the duration flag does not parse or is
  not positive it has duration 30 (a flag in range is taken as given). The command
  reports no error for its input: the only failure it can end with is that of writing
  the file, and the only line it can print on standard error is the one for that
  failure. When the file can be written it exits with status 0, the file holds the new
  collection, and nothing is printed on standard error.
\<close>

theorem add_defaults:
  "(let r = addCmd srt now args requester priorityStr durationStr w;
        ts = Tasks (taskList (final_world r))
    in ts \<noteq> [] \<and> length ts = Suc (length (Tasks (taskList w)))
     \<and> ID (last ts) = NextID (taskList w) \<and> Status (last ts) = ''pending''
     \<and> ((Atoi priorityStr = None \<or> (\<exists>p. Atoi priorityStr = Some p \<and> (p < 1 \<or> 5 < p))) \<longrightarrow>
           Priority (last ts) = 3)
     \<and> ((Atoi durationStr = None \<or> (\<exists>d. Atoi durationStr = Some d \<and> d \<le> 0)) \<longrightarrow>
           EstimatedDuration (last ts) = 30)
     \<and> (\<forall>p. Atoi priorityStr = Some p \<and> 1 \<le> p \<and> p \<le> 5 \<longrightarrow> Priority (last ts) = p)
     \<and> (\<forall>d. Atoi durationStr = Some d \<and> 0 < d \<longrightarrow> EstimatedDuration (last ts) = d)
     \<and> (\<forall>e w'. r = Inl (e, w') \<longrightarrow> e = FatalIO)
     \<and> stderr (final_world r) =
           stderr w @ (case write_error w of None \<Rightarrow> []
                       | Some e \<Rightarrow> [''Error writing tasks file: '' @ e])
     \<and> (write_error w = None \<longrightarrow>
           exit_code r = 0 \<and> disk (final_world r) = Stored (taskList (final_world r))
         \<and> stderr (final_world r) = stderr w))"
proof -
  define r where "r = addCmd srt now args requester priorityStr durationStr w"
  define ts where "ts = Tasks (taskList (final_world r))"
  define t where "t = new_task now args requester priorityStr durationStr w"
  from addCmd_last[of srt now args requester priorityStr durationStr w]
  have ne: "ts \<noteq> []" and len: "length ts = Suc (length (Tasks (taskList w)))"
    and l: "(last ts)\<lparr>Position := 0\<rparr> = t\<lparr>Position := 0\<rparr>"
    by (simp_all add: ts_def r_def t_def new_task_def Let_def)
  note f = erased_fields[OF l]
  have c1: "ID (last ts) = NextID (taskList w)" "Status (last ts) = ''pending''"
    by (simp_all add: f t_def new_task_def Let_def)
  have c2: "Priority (last ts) = 3"
    if "Atoi priorityStr = None \<or> (\<exists>p. Atoi priorityStr = Some p \<and> (p < 1 \<or> 5 < p))"
    using that by (auto simp: f t_def new_task_def Let_def)
  have c3: "EstimatedDuration (last ts) = 30"
    if "Atoi durationStr = None \<or> (\<exists>d. Atoi durationStr = Some d \<and> d \<le> 0)"
    using that by (auto simp: f t_def new_task_def Let_def)
  have c4: "Priority (last ts) = p" if "Atoi priorityStr = Some p \<and> 1 \<le> p \<and> p \<le> 5" for p
    using that by (simp add: f t_def new_task_def Let_def)
  have c5: "EstimatedDuration (last ts) = d" if "Atoi durationStr = Some d \<and> 0 < d" for d
    using that by (simp add: f t_def new_task_def Let_def)
  have c6: "e = FatalIO" if "r = Inl (e, w')" for e w'
    using that addCmd_error unfolding r_def by blast
  have c8: "stderr (final_world r) =
           stderr w @ (case write_error w of None \<Rightarrow> []
                       | Some e \<Rightarrow> [''Error writing tasks file: '' @ e])"
    unfolding r_def by (rule addCmd_stderr)
  have c7: "exit_code r = 0 \<and> disk (final_world r) = Stored (taskList (final_world r))
         \<and> stderr (final_world r) = stderr w"
    if "write_error w = None"
    using addCmd_ok[OF that] c8 that unfolding r_def by simp
  from ne len c1 c2 c3 c4 c5 c6 c7 c8 show ?thesis
    unfolding Let_def r_def[symmetric] ts_def[symmetric] by blast
qed

theorem add_defaults_witness:
  "Atoi ''high'' = None \<and> Atoi ''0'' = Some 0 \<and> write_error example_world = None
   \<and> (let r = addCmd insertion_sort 500 [''write'', ''report''] ''ann'' ''high'' ''0'' example_world
       in exit_code r = 0
        \<and> Priority (last (Tasks (taskList (final_world r)))) = 3
        \<and> EstimatedDuration (last (Tasks (taskList (final_world r)))) = 30
        \<and> stderr (final_world r) = [])"
proof -
  have a: "Atoi ''high'' = None" by code_simp
  have b: "Atoi ''0'' = Some 0" by code_simp
  have c: "write_error example_world = None" "stderr example_world = []"
    by (simp_all add: example_world_def)
  from add_defaults[of insertion_sort 500 "[''write'', ''report'']" "''ann''" "''high''" "''0''" example_world]
    a b c
  show ?thesis by (simp add: Let_def)
qed

section \<open>The \<open>start\<close> and \<open>complete\<close> commands\<close>

lemma update_first_nth:
  "distinct (map ID ts) \<Longrightarrow> k < length ts \<Longrightarrow> ID (ts ! k) = i \<Longrightarrow>
   update_first i f ts = Some (ts[k := f (ts ! k)])"
proof (induction ts arbitrary: k)
  case Nil
  then show ?case by simp
next
  case (Cons t ts)
  show ?case
  proof (cases k)
    case 0
    with Cons.prems show ?thesis by simp
  next
    case (Suc j)
    with Cons.prems have j: "j < length ts" "ID (ts ! j) = i" and d: "distinct (map ID ts)"
      and notin: "ID t \<notin> ID ` set ts" by auto
    from notin j have "ID t \<noteq> i" by (metis imageI nth_mem)
    with Cons.IH[OF d j] Suc show ?thesis by simp
  qed
qed

lemma ids_list_update:
  "k < length ts \<Longrightarrow> ID (f (ts ! k)) = ID (ts ! k) \<Longrightarrow> map ID (ts[k := f (ts ! k)]) = map ID ts"
  by (simp add: map_update list_update_same_conv)

lemma positioner_nth_not_pending:
  assumes "sort_Slice_spec less_task srt" "distinct (ids l)" "k < length (Tasks l)"
    "\<not> pending (Tasks l ! k)"
  shows "Tasks (updateQueuePositions srt l) ! k = Tasks l ! k"
  using positioner_not_pending[OF assms(1,2), of "Tasks l ! k"] assms(3,4)
  by (simp add: sorted_pending_props(6)[OF assms(1,2)])

lemma update_then_save:
  assumes spec: "sort_Slice_spec less_task srt" and d: "distinct (ids (taskList w))"
    and k: "k < length (Tasks (taskList w))"
    and f: "ID (f (Tasks (taskList w) ! k)) = ID (Tasks (taskList w) ! k)"
      "\<not> pending (f (Tasks (taskList w) ! k))"
    and we: "write_error w = None"
  shows "\<exists>w'. saveTasks srt (w\<lparr>taskList := (taskList w)\<lparr>Tasks := (Tasks (taskList w))[k := f (Tasks (taskList w) ! k)]\<rparr>,
                              stdout := out\<rparr>) = Inr w'
           \<and> Tasks (taskList w') ! k = f (Tasks (taskList w) ! k)
           \<and> length (Tasks (taskList w')) = length (Tasks (taskList w))
           \<and> disk w' = Stored (taskList w')"
proof -
  let ?ts = "Tasks (taskList w)"
  let ?l = "(taskList w)\<lparr>Tasks := ?ts[k := f (?ts ! k)]\<rparr>"
  have d': "distinct (ids ?l)"
    using d ids_list_update[of k "Tasks (taskList w)" f, OF k f(1)] by (simp add: ids_def)
  have k': "k < length (Tasks ?l)" using k by simp
  have np: "\<not> pending (Tasks ?l ! k)" using k f(2) by simp
  have "Tasks (updateQueuePositions srt ?l) ! k = f (?ts ! k)"
    using positioner_nth_not_pending[OF spec d' k' np] k by simp
  moreover have "length (Tasks (updateQueuePositions srt ?l)) = length ?ts"
    by (simp add: updateQueuePositions_Tasks assign_positions_length)
  ultimately show ?thesis
    using we by (simp add: saveTasks_ok)
qed

text \<open>
  Claim C10. On a collection with unique identifiers, whose file can be written,
  \<open>start\<close> and \<open>complete\<close> succeed on the identifier of any task of the collection,
  whatever the status of the task. After \<open>start\<close> the task is what it was with status
  \<open>in_progress\<close>: every other field, the completion timestamp among them, is
  unchanged. After \<open>complete\<close> it is what it was with status \<open>completed\<close> and the
  completion timestamp set to the current time. The new collection is saved.
\<close>

theorem start_complete_any_status:
  assumes spec: "sort_Slice_spec less_task srt" and d: "distinct (ids (taskList w))"
    and a: "Atoi a = Some i" and k: "k < length (Tasks (taskList w))"
    and i: "ID (Tasks (taskList w) ! k) = i" and we: "write_error w = None"
  shows "(\<exists>w'. startCmd srt a w = Inr w'
            \<and> Tasks (taskList w') ! k = (Tasks (taskList w) ! k)\<lparr>Status := ''in_progress''\<rparr>
            \<and> CompletedAt (Tasks (taskList w') ! k) = CompletedAt (Tasks (taskList w) ! k)
            \<and> length (Tasks (taskList w')) = length (Tasks (taskList w))
            \<and> disk w' = Stored (taskList w'))
       \<and> (\<exists>w'. completeCmd srt now a w = Inr w'
            \<and> Tasks (taskList w') ! k
                = (Tasks (taskList w) ! k)\<lparr>Status := ''completed'', CompletedAt := now\<rparr>
            \<and> length (Tasks (taskList w')) = length (Tasks (taskList w))
            \<and> disk w' = Stored (taskList w'))"
proof -
  let ?ts = "Tasks (taskList w)"
  from d have d': "distinct (map ID ?ts)" by (simp add: ids_def)
  have u: "update_first i f ?ts = Some (?ts[k := f (?ts ! k)])" for f
    using update_first_nth[OF d' k i] .
  have s: "\<exists>w'. startCmd srt a w = Inr w'
            \<and> Tasks (taskList w') ! k = (?ts ! k)\<lparr>Status := ''in_progress''\<rparr>
            \<and> length (Tasks (taskList w')) = length ?ts
            \<and> disk w' = Stored (taskList w')"
    using update_then_save[OF spec d k _ _ we, of "\<lambda>t. t\<lparr>Status := ''in_progress''\<rparr>"]
    by (simp add: startCmd_def a u pending_def)
  have c: "\<exists>w'. completeCmd srt now a w = Inr w'
            \<and> Tasks (taskList w') ! k = (?ts ! k)\<lparr>Status := ''completed'', CompletedAt := now\<rparr>
            \<and> length (Tasks (taskList w')) = length ?ts
            \<and> disk w' = Stored (taskList w')"
    using update_then_save[OF spec d k _ _ we, of "\<lambda>t. t\<lparr>Status := ''completed'', CompletedAt := now\<rparr>"]
    by (simp add: completeCmd_def a u pending_def)
  from s c show ?thesis by force
qed

theorem start_complete_any_status_witness:
  "sort_Slice_spec less_task insertion_sort \<and> distinct (ids (taskList example_world))
   \<and> Atoi ''3'' = Some 3 \<and> (2::nat) < length (Tasks (taskList example_world))
   \<and> ID (Tasks (taskList example_world) ! 2) = 3 \<and> write_error example_world = None
   \<and> Status (Tasks (taskList example_world) ! 2) = ''completed''
   \<and> (\<exists>w'. startCmd insertion_sort ''3'' example_world = Inr w'
          \<and> Status (Tasks (taskList w') ! 2) = ''in_progress''
          \<and> CompletedAt (Tasks (taskList w') ! 2) = 350)"
proof -
  have d: "distinct (ids (taskList example_world))"
    by (simp add: ids_def example_world_def example_store_def example_task_def)
  have a: "Atoi ''3'' = Some 3" by code_simp
  have k: "(2::nat) < length (Tasks (taskList example_world))"
    and i: "ID (Tasks (taskList example_world) ! 2) = 3"
    and we: "write_error example_world = None"
    and s: "Status (Tasks (taskList example_world) ! 2) = ''completed''"
    and c: "CompletedAt (Tasks (taskList example_world) ! 2) = 350"
    by (simp_all add: example_world_def example_store_def example_task_def)
  from start_complete_any_status[OF insertion_sort_spec d a k i we, of 0]
  obtain w' where "startCmd insertion_sort ''3'' example_world = Inr w'"
    "Tasks (taskList w') ! 2 = (Tasks (taskList example_world) ! 2)\<lparr>Status := ''in_progress''\<rparr>"
    by blast
  with c have "\<exists>w'. startCmd insertion_sort ''3'' example_world = Inr w'
          \<and> Status (Tasks (taskList w') ! 2) = ''in_progress''
          \<and> CompletedAt (Tasks (taskList w') ! 2) = 350"
    by simp
  with insertion_sort_spec d a k i we s show ?thesis by blast
qed

section \<open>The \<open>queue\<close> command\<close>

text \<open>The verb \<open>%Ns\<close> pads to a width counted in runes: a requester of three bytes
  that make two runes gets two blanks in a field of four.\<close>

lemma pad_left_counts_runes:
  "RuneCountInString [char_of (195::nat), char_of (169::nat), CHR ''r''] = 2
   \<and> pad_left 4 [char_of (195::nat), char_of (169::nat), CHR ''r'']
       = [CHR '' '', CHR '' '', char_of (195::nat), char_of (169::nat), CHR ''r'']"
  by code_simp







section \<open>Identifiers over a session\<close>

lemma assign_positions_ids: "map ID (assign_positions i ps ts) = map ID ts"
  by (induction ps arbitrary: i ts) (auto simp: set_position_ids)

lemma updateQueuePositions_ids: "ids (updateQueuePositions srt l) = ids l"
  by (simp add: ids_def updateQueuePositions_Tasks assign_positions_ids)

lemma store_inv_positions: "store_inv (updateQueuePositions srt l) = store_inv l"
  by (simp add: store_inv_def updateQueuePositions_ids updateQueuePositions_NextID)

lemma later_store_positions: "later_store l (updateQueuePositions srt l') = later_store l l'"
  by (simp add: later_store_def store_inv_positions updateQueuePositions_ids updateQueuePositions_NextID)

lemma later_store_refl: "store_inv l \<Longrightarrow> later_store l l"
  by (simp add: later_store_def)

lemma later_store_same_ids:
  "store_inv l \<Longrightarrow> ids l' = ids l \<Longrightarrow> NextID l' = NextID l \<Longrightarrow> later_store l l'"
  by (simp add: later_store_def store_inv_def)

lemma update_first_ids:
  "(\<And>t. ID (f t) = ID t) \<Longrightarrow> update_first i f ts = Some ts' \<Longrightarrow> map ID ts' = map ID ts"
  by (induction ts arbitrary: ts') (auto split: if_splits option.splits)

lemma later_store_add:
  assumes inv: "store_inv l" and n: "NextID l < 2 ^ 63 - 1" and t: "ID t = NextID l"
  shows "later_store l \<lparr>Tasks = Tasks l @ [t], NextID = go_add (NextID l) 1\<rparr>"
proof -
  from inv n have "int64 (NextID l + 1)" by (simp add: store_inv_def int64_def)
  then have g: "go_add (NextID l) 1 = NextID l + 1" "int64 (NextID l + 1)"
    by (simp_all add: go_add_def wrap64_id)
  from inv have "NextID l \<notin> set (ids l)" by (auto simp: store_inv_def)
  with inv t show ?thesis
    by (auto simp: later_store_def store_inv_def ids_def g)
qed

lemma later_store_remove:
  assumes inv: "store_inv l"
  shows "later_store l (l\<lparr>Tasks := take k (Tasks l) @ drop (Suc k) (Tasks l)\<rparr>)"
proof -
  let ?xs = "map ID (Tasks l)"
  have e: "ids (l\<lparr>Tasks := take k (Tasks l) @ drop (Suc k) (Tasks l)\<rparr>) = take k ?xs @ drop (Suc k) ?xs"
    by (simp add: ids_def take_map drop_map)
  from inv have d: "distinct ?xs" by (simp add: store_inv_def ids_def)
  then have "distinct (take k ?xs @ drop (Suc k) ?xs)"
    using set_take_disj_set_drop_if_distinct[OF d, of k "Suc k"] by simp
  moreover have "set (take k ?xs @ drop (Suc k) ?xs) \<subseteq> set ?xs"
    using set_take_subset[of k ?xs] set_drop_subset[of "Suc k" ?xs] by auto
  ultimately show ?thesis
    using inv unfolding later_store_def store_inv_def e by (auto simp: ids_def)
qed

lemma saveTasks_disk:
  "disk (final_world (saveTasks srt w)) = disk w
   \<or> disk (final_world (saveTasks srt w)) = Stored (updateQueuePositions srt (taskList w))"
  by (simp add: saveTasks_def Let_def split: option.splits)

lemma saveTasks_later:
  assumes "later_store l (taskList w)"
  shows "disk (final_world (saveTasks srt w)) = disk w
   \<or> (\<exists>l'. disk (final_world (saveTasks srt w)) = Stored l' \<and> later_store l l')"
  using saveTasks_disk[of srt w] assms by (auto simp: later_store_positions)

lemma addCmd_disk:
  "disk (final_world (addCmd srt now args requester priorityStr durationStr w)) = disk w
   \<or> disk (final_world (addCmd srt now args requester priorityStr durationStr w))
       = Stored (updateQueuePositions srt
           \<lparr>Tasks = Tasks (taskList w) @ [new_task now args requester priorityStr durationStr w],
            NextID = go_add (NextID (taskList w)) 1\<rparr>)"
  by (simp add: addCmd_def Let_def saveTasks_def split: option.splits)

lemma new_task_ID: "ID (new_task now args requester priorityStr durationStr w) = NextID (taskList w)"
  by (simp add: new_task_def Let_def)

lemma addCmd_later:
  assumes "store_inv (taskList w)" "NextID (taskList w) < 2 ^ 63 - 1"
  shows "disk (final_world (addCmd srt now args requester priorityStr durationStr w)) = disk w
   \<or> (\<exists>l'. disk (final_world (addCmd srt now args requester priorityStr durationStr w)) = Stored l'
          \<and> later_store (taskList w) l')"
proof -
  have nt: "ID (new_task now args requester priorityStr durationStr w) = NextID (taskList w)"
    by (rule new_task_ID)
  from addCmd_disk[of srt now args requester priorityStr durationStr w]
    later_store_add[OF assms nt]
  show ?thesis by (auto simp: later_store_positions)
qed

lemma update_save_later:
  assumes inv: "store_inv (taskList w)" and f: "\<And>t. ID (f t) = ID t"
    and u: "update_first i f (Tasks (taskList w)) = Some ts"
  shows "disk (final_world (saveTasks srt (w\<lparr>taskList := (taskList w)\<lparr>Tasks := ts\<rparr>, stdout := out\<rparr>))) = disk w
   \<or> (\<exists>l'. disk (final_world (saveTasks srt (w\<lparr>taskList := (taskList w)\<lparr>Tasks := ts\<rparr>, stdout := out\<rparr>))) = Stored l'
          \<and> later_store (taskList w) l')"
proof -
  have "later_store (taskList w) ((taskList w)\<lparr>Tasks := ts\<rparr>)"
    using update_first_ids[OF f u] by (intro later_store_same_ids[OF inv]) (simp_all add: ids_def)
  then show ?thesis
    using saveTasks_later[of "taskList w" "w\<lparr>taskList := (taskList w)\<lparr>Tasks := ts\<rparr>, stdout := out\<rparr>" srt]
    by simp
qed

lemma completeCmd_later:
  assumes "store_inv (taskList w)"
  shows "disk (final_world (completeCmd srt now a w)) = disk w
   \<or> (\<exists>l'. disk (final_world (completeCmd srt now a w)) = Stored l' \<and> later_store (taskList w) l')"
proof (cases "Atoi a")
  case None
  then show ?thesis by (simp add: completeCmd_def invalid_id_def)
next
  case (Some i)
  show ?thesis
  proof (cases "update_first i (\<lambda>t. t\<lparr>Status := ''completed'', CompletedAt := now\<rparr>) (Tasks (taskList w))")
    case None
    with Some show ?thesis by (simp add: completeCmd_def not_found_def)
  next
    case (Some ts)
    from update_save_later[OF assms _ Some, of srt] \<open>Atoi a = Some i\<close> Some
    show ?thesis by (simp add: completeCmd_def)
  qed
qed

lemma startCmd_later:
  assumes "store_inv (taskList w)"
  shows "disk (final_world (startCmd srt a w)) = disk w
   \<or> (\<exists>l'. disk (final_world (startCmd srt a w)) = Stored l' \<and> later_store (taskList w) l')"
proof (cases "Atoi a")
  case None
  then show ?thesis by (simp add: startCmd_def invalid_id_def)
next
  case (Some i)
  show ?thesis
  proof (cases "update_first i (\<lambda>t. t\<lparr>Status := ''in_progress''\<rparr>) (Tasks (taskList w))")
    case None
    with Some show ?thesis by (simp add: startCmd_def not_found_def)
  next
    case (Some ts)
    from update_save_later[OF assms _ Some, of srt] \<open>Atoi a = Some i\<close> Some
    show ?thesis by (simp add: startCmd_def)
  qed
qed

lemma estimateCmd_later:
  assumes "store_inv (taskList w)"
  shows "disk (final_world (estimateCmd srt a b w)) = disk w
   \<or> (\<exists>l'. disk (final_world (estimateCmd srt a b w)) = Stored l' \<and> later_store (taskList w) l')"
proof (cases "Atoi a")
  case None
  then show ?thesis by (simp add: estimateCmd_def invalid_id_def)
next
  case (Some i)
  note a = this
  show ?thesis
  proof (cases "case Atoi b of None \<Rightarrow> None | Some d \<Rightarrow> if d \<le> 0 then None else Some d")
    case None
    with a show ?thesis by (simp add: estimateCmd_def)
  next
    case (Some duration)
    note b = this
    show ?thesis
    proof (cases "update_first i (\<lambda>t. t\<lparr>EstimatedDuration := duration\<rparr>) (Tasks (taskList w))")
      case None
      with a b show ?thesis by (simp add: estimateCmd_def not_found_def)
    next
      case (Some ts)
      from update_save_later[OF assms _ Some, of srt] a b Some
      show ?thesis by (simp add: estimateCmd_def)
    qed
  qed
qed

lemma removeCmd_disk:
  "disk (final_world (removeCmd srt a w)) = disk w
   \<or> (\<exists>k. disk (final_world (removeCmd srt a w))
         = Stored (updateQueuePositions srt
             ((taskList w)\<lparr>Tasks := take k (Tasks (taskList w)) @ drop (Suc k) (Tasks (taskList w))\<rparr>)))"
  by (auto simp: removeCmd_def Let_def saveTasks_def invalid_id_def not_found_def
      split: option.splits)

lemma removeCmd_later:
  assumes "store_inv (taskList w)"
  shows "disk (final_world (removeCmd srt a w)) = disk w
   \<or> (\<exists>l'. disk (final_world (removeCmd srt a w)) = Stored l' \<and> later_store (taskList w) l')"
  using removeCmd_disk[of srt a w] later_store_remove[OF assms]
  by (auto simp: later_store_positions)

lemma queueInfoCmd_disk: "disk (final_world (queueInfoCmd w)) = disk w"
  by (simp add: queueInfoCmd_def Let_def split: prod.splits)

lemma run_command_later:
  assumes "store_inv (taskList w)" "NextID (taskList w) < 2 ^ 63 - 1"
  shows "disk (final_world (run_command srt now c w)) = disk w
   \<or> (\<exists>l'. disk (final_world (run_command srt now c w)) = Stored l' \<and> later_store (taskList w) l')"
proof (cases c)
  case (Add args requester priorityStr durationStr)
  then show ?thesis using addCmd_later[OF assms] by simp
next
  case (Complete a)
  then show ?thesis using completeCmd_later[OF assms(1)] by simp
next
  case (Start a)
  then show ?thesis using startCmd_later[OF assms(1)] by simp
next
  case (Estimate a b)
  then show ?thesis using estimateCmd_later[OF assms(1)] by simp
next
  case (Remove a)
  then show ?thesis using removeCmd_later[OF assms(1)] by simp
next
  case Queue
  then show ?thesis by (simp add: queueInfoCmd_disk)
qed

lemma assign_positions_Nil: "assign_positions i ps [] = []"
  by (induction ps arbitrary: i) auto

lemma updateQueuePositions_empty:
  "updateQueuePositions srt \<lparr>Tasks = [], NextID = n\<rparr> = \<lparr>Tasks = [], NextID = n\<rparr>"
  by (simp add: updateQueuePositions_def Let_def assign_positions_Nil)

lemma loadTasks_cases:
  assumes "stored (disk w) = Some l"
  shows "(\<exists>e w'. loadTasks srt w = Inl (e, w') \<and> disk w' = disk w)
       \<or> (\<exists>w1. loadTasks srt w = Inr w1 \<and> taskList w1 = l \<and> stored (disk w1) = Some l)"
proof (cases "disk w")
  case Missing
  with assms show ?thesis
    by (auto simp: loadTasks_def saveTasks_def Let_def updateQueuePositions_empty split: option.splits)
next
  case (Unreadable e)
  with assms show ?thesis by simp
next
  case (Unparsable e)
  with assms show ?thesis by simp
next
  case (Stored l0)
  with assms show ?thesis by (simp add: loadTasks_def)
qed

lemma invoke_later:
  assumes st: "stored (disk w) = Some l" and inv: "store_inv l" and n: "NextID l < 2 ^ 63 - 1"
  shows "\<exists>l'. stored (disk (final_world (invoke srt nc w))) = Some l' \<and> later_store l l'"
proof -
  let ?w0 = "w\<lparr>taskList := \<lparr>Tasks = [], NextID = 0\<rparr>\<rparr>"
  from st have st0: "stored (disk ?w0) = Some l" by simp
  from loadTasks_cases[OF st0, of srt] show ?thesis
  proof
    assume "\<exists>e w'. loadTasks srt ?w0 = Inl (e, w') \<and> disk w' = disk ?w0"
    then obtain e w' where "loadTasks srt ?w0 = Inl (e, w')" "disk w' = disk w" by auto
    then have "disk (final_world (invoke srt nc w)) = disk w" by (simp add: invoke_def)
    with st later_store_refl[OF inv] show ?thesis by auto
  next
    assume "\<exists>w1. loadTasks srt ?w0 = Inr w1 \<and> taskList w1 = l \<and> stored (disk w1) = Some l"
    then obtain w1 where w1: "loadTasks srt ?w0 = Inr w1" "taskList w1 = l" "stored (disk w1) = Some l"
      by auto
    then have iv: "invoke srt nc w = run_command srt (fst nc) (snd nc) w1" by (simp add: invoke_def)
    from run_command_later[of w1 srt "fst nc" "snd nc"] inv n w1(2)
    have "disk (final_world (run_command srt (fst nc) (snd nc) w1)) = disk w1
      \<or> (\<exists>l'. disk (final_world (run_command srt (fst nc) (snd nc) w1)) = Stored l' \<and> later_store l l')"
      by simp
    then show ?thesis
    proof
      assume "disk (final_world (run_command srt (fst nc) (snd nc) w1)) = disk w1"
      with w1(3) later_store_refl[OF inv] show ?thesis by (auto simp: iv)
    next
      assume "\<exists>l'. disk (final_world (run_command srt (fst nc) (snd nc) w1)) = Stored l' \<and> later_store l l'"
      then show ?thesis by (auto simp: iv)
    qed
  qed
qed

lemma session_later:
  assumes "stored (disk w) = Some l" "store_inv l" "NextID l + int (length ncs) < 2 ^ 63"
  shows "\<exists>l'. stored (disk (session srt ncs w)) = Some l' \<and> store_inv l'
           \<and> NextID l \<le> NextID l' \<and> NextID l' \<le> NextID l + int (length ncs)
           \<and> (\<forall>i\<in>set (ids l'). i \<in> set (ids l) \<or> NextID l \<le> i)"
  using assms
proof (induction ncs arbitrary: w l)
  case Nil
  then show ?case by simp
next
  case (Cons nc ncs)
  from Cons.prems(3) have n: "NextID l < 2 ^ 63 - 1" by simp
  from invoke_later[OF Cons.prems(1,2) n, of srt nc] obtain l1 where
    l1: "stored (disk (final_world (invoke srt nc w))) = Some l1" "later_store l l1" by blast
  from l1(2) have inv1: "store_inv l1" and le: "NextID l \<le> NextID l1" "NextID l1 \<le> NextID l + 1"
    and new: "\<forall>i\<in>set (ids l1). i \<in> set (ids l) \<or> NextID l \<le> i"
    by (simp_all add: later_store_def)
  from le Cons.prems(3) have b: "NextID l1 + int (length ncs) < 2 ^ 63" by simp
  from Cons.IH[OF l1(1) inv1 b] obtain l' where
    l': "stored (disk (session srt ncs (final_world (invoke srt nc w)))) = Some l'" "store_inv l'"
      "NextID l1 \<le> NextID l'" "NextID l' \<le> NextID l1 + int (length ncs)"
      "\<forall>i\<in>set (ids l'). i \<in> set (ids l1) \<or> NextID l1 \<le> i"
    by blast
  have "\<forall>i\<in>set (ids l'). i \<in> set (ids l) \<or> NextID l \<le> i"
    using l'(5) new le(1) by fastforce
  with l' le show ?case by auto
qed

lemma session_append: "session srt (xs @ ys) w = session srt ys (session srt xs w)"
  by (induction xs arbitrary: w) auto

text \<open>
  Claim C8. Take a session of invocations, with any commands and arguments, on a file
  whose collection satisfies the invariant of the data model (identifiers unique and
  below the next-identifier counter), or on no file at all, and short enough for the counter
  to stay within Go's \<open>int\<close>. At every two points of the session, an earlier and a later
  one: the identifiers of the stored collection are unique and below the counter; the
  counter has not decreased; every identifier of the later collection is an identifier
  of the earlier one or is at least the earlier counter; hence an identifier that was
  below the earlier counter and not in use then, such as that of a removed task, is not
  in use later.
\<close>

theorem identifiers_never_reused:
  assumes "stored (disk w) = Some l" "store_inv l"
    "NextID l + int (length (ncs1 @ ncs2)) < 2 ^ 63"
  shows "\<exists>l1 l2. stored (disk (session srt ncs1 w)) = Some l1
           \<and> stored (disk (session srt (ncs1 @ ncs2) w)) = Some l2
           \<and> distinct (ids l1) \<and> (\<forall>i\<in>set (ids l1). i < NextID l1)
           \<and> distinct (ids l2) \<and> (\<forall>i\<in>set (ids l2). i < NextID l2)
           \<and> NextID l \<le> NextID l1 \<and> NextID l1 \<le> NextID l2
           \<and> (\<forall>i\<in>set (ids l2). i \<in> set (ids l1) \<or> NextID l1 \<le> i)
           \<and> (\<forall>i. i < NextID l1 \<and> i \<notin> set (ids l1) \<longrightarrow> i \<notin> set (ids l2))"
proof -
  from assms(3) have b1: "NextID l + int (length ncs1) < 2 ^ 63" by simp
  from session_later[OF assms(1,2) b1, of srt] obtain l1 where
    l1: "stored (disk (session srt ncs1 w)) = Some l1" "store_inv l1"
      "NextID l \<le> NextID l1" "NextID l1 \<le> NextID l + int (length ncs1)"
    by blast
  from l1(4) assms(3) have b2: "NextID l1 + int (length ncs2) < 2 ^ 63" by simp
  from session_later[OF l1(1,2) b2, of srt] obtain l2 where
    l2: "stored (disk (session srt (ncs1 @ ncs2) w)) = Some l2" "store_inv l2"
      "NextID l1 \<le> NextID l2"
      "\<forall>i\<in>set (ids l2). i \<in> set (ids l1) \<or> NextID l1 \<le> i"
    unfolding session_append by blast
  from l2(4) have "\<forall>i. i < NextID l1 \<and> i \<notin> set (ids l1) \<longrightarrow> i \<notin> set (ids l2)"
    by fastforce
  with l1 l2 show ?thesis unfolding store_inv_def by blast
qed

theorem identifiers_never_reused_witness:
  "stored (disk fresh_world) = Some \<lparr>Tasks = [], NextID = 1\<rparr>
   \<and> store_inv \<lparr>Tasks = [], NextID = 1\<rparr>
   \<and> NextID \<lparr>Tasks = [], NextID = 1\<rparr>
         + int (length (example_session @ [(400, Add [''third''] [] ''2'' ''10'')])) < 2 ^ 63
   \<and> map_option ids (stored (disk (session insertion_sort example_session fresh_world)))
         = Some [2]
   \<and> map_option ids (stored (disk (session insertion_sort
           (example_session @ [(400, Add [''third''] [] ''2'' ''10'')]) fresh_world)))
         = Some [2, 3]
   \<and> (\<exists>l1 l2. stored (disk (session insertion_sort example_session fresh_world)) = Some l1
         \<and> stored (disk (session insertion_sort
               (example_session @ [(400, Add [''third''] [] ''2'' ''10'')]) fresh_world)) = Some l2
         \<and> NextID l1 \<le> NextID l2
         \<and> (\<forall>i. i < NextID l1 \<and> i \<notin> set (ids l1) \<longrightarrow> i \<notin> set (ids l2)))"
proof -
  have h1: "stored (disk fresh_world) = Some \<lparr>Tasks = [], NextID = 1\<rparr>"
    by (simp add: fresh_world_def)
  have h2: "store_inv \<lparr>Tasks = [], NextID = 1\<rparr>"
    by (simp add: store_inv_def ids_def int64_def)
  have h3: "NextID \<lparr>Tasks = [], NextID = 1\<rparr>
         + int (length (example_session @ [(400, Add [''third''] [] ''2'' ''10'')])) < 2 ^ 63"
    by (simp add: example_session_def)
  have e1: "map_option ids (stored (disk (session insertion_sort example_session fresh_world)))
         = Some [2]"
    by code_simp
  have e2: "map_option ids (stored (disk (session insertion_sort
           (example_session @ [(400, Add [''third''] [] ''2'' ''10'')]) fresh_world)))
         = Some [2, 3]"
    by code_simp
  from identifiers_never_reused[OF h1 h2 h3, of insertion_sort]
  have "\<exists>l1 l2. stored (disk (session insertion_sort example_session fresh_world)) = Some l1
         \<and> stored (disk (session insertion_sort
               (example_session @ [(400, Add [''third''] [] ''2'' ''10'')]) fresh_world)) = Some l2
         \<and> NextID l1 \<le> NextID l2
         \<and> (\<forall>i. i < NextID l1 \<and> i \<notin> set (ids l1) \<longrightarrow> i \<notin> set (ids l2))"
    by blast
  with h1 h2 h3 e1 e2 show ?thesis by blast
qed

end
